theory Spec2Isabelle
  imports Complex_Main "HOL-Library.Multiset"
begin

section \<open>Python values\<close>

text \<open>
  The engine is \<^verbatim>\<open>backend/app/services/pattern_analyzer.py\<close>. A Python \<^verbatim>\<open>str\<close> is a
  sequence of Unicode code points, so a string is modelled as the list of its code points
  (\<^verbatim>\<open>ord\<close> of each character); \<open>length\<close> is Python's \<^verbatim>\<open>len\<close>. String literals of the
  source are written as their code points, with the Python escape of the literal in a
  comment. Python \<^verbatim>\<open>dict\<close>s and \<^verbatim>\<open>Counter\<close>s keep insertion order, which the code relies
  on, so they are association lists with distinct keys.
\<close>

type_synonym pystr = "int list"

definition asc :: "string \<Rightarrow> pystr" where
  "asc s = map (\<lambda>c. of_char c) s"

text \<open>\<^verbatim>\<open>sub in s\<close> for strings.\<close>

fun py_contains :: "pystr \<Rightarrow> pystr \<Rightarrow> bool" where
  "py_contains [] sub = (sub = [])"
| "py_contains (c # cs) sub = (take (length sub) (c # cs) = sub \<or> py_contains cs sub)"

text \<open>\<^verbatim>\<open>s.count(sub)\<close>: the number of non-overlapping occurrences, scanning from the left.\<close>

function py_count :: "pystr \<Rightarrow> pystr \<Rightarrow> nat" where
  "py_count [] sub = (if sub = [] then 1 else 0)"
| "py_count (c # cs) sub =
     (if sub = [] then Suc (py_count cs sub)
      else if take (length sub) (c # cs) = sub
           then Suc (py_count (drop (length sub) (c # cs)) sub)
           else py_count cs sub)"
  by pat_completeness auto
termination
  by (relation "measure (\<lambda>(s, sub). length s)") auto

text \<open>\<^verbatim>\<open>sep.join(xs)\<close>.\<close>

fun py_join :: "pystr \<Rightarrow> pystr list \<Rightarrow> pystr" where
  "py_join sep [] = []"
| "py_join sep [x] = x"
| "py_join sep (x # y # ys) = x @ sep @ py_join sep (y # ys)"

text \<open>\<^verbatim>\<open>d[k] = v\<close> on an insertion-ordered dictionary, and \<^verbatim>\<open>d.get(k)\<close>.\<close>

fun dict_set :: "'k \<Rightarrow> 'v \<Rightarrow> ('k \<times> 'v) list \<Rightarrow> ('k \<times> 'v) list" where
  "dict_set k v [] = [(k, v)]"
| "dict_set k v ((k', v') # d) =
     (if k' = k then (k', v) # d else (k', v') # dict_set k v d)"

definition dict_get :: "('k \<times> 'v) list \<Rightarrow> 'k \<Rightarrow> 'v option" where
  "dict_get d k = map_of d k"

lemma py_contains_iff: "py_contains s sub \<longleftrightarrow> (\<exists>pre suf. s = pre @ sub @ suf)"
proof (induction s)
  case Nil
  show ?case by auto
next
  case (Cons c cs)
  show ?case
  proof
    assume "py_contains (c # cs) sub"
    then consider "take (length sub) (c # cs) = sub" | "py_contains cs sub" by auto
    then show "\<exists>pre suf. c # cs = pre @ sub @ suf"
    proof cases
      case 1
      then have "c # cs = [] @ sub @ drop (length sub) (c # cs)"
        by (metis append_Nil append_take_drop_id)
      then show ?thesis by blast
    next
      case 2
      then obtain pre suf where "cs = pre @ sub @ suf" using Cons.IH by blast
      then have "c # cs = (c # pre) @ sub @ suf" by simp
      then show ?thesis by blast
    qed
  next
    assume "\<exists>pre suf. c # cs = pre @ sub @ suf"
    then obtain pre suf where eq: "c # cs = pre @ sub @ suf" by blast
    show "py_contains (c # cs) sub"
    proof (cases pre)
      case Nil
      then have "take (length sub) (c # cs) = sub" using eq by simp
      then show ?thesis by simp
    next
      case (Cons p ps)
      then have "cs = ps @ sub @ suf" using eq by simp
      then have "py_contains cs sub" using Cons.IH by blast
      then show ?thesis by simp
    qed
  qed
qed

lemma py_count_pos_iff: "sub \<noteq> [] \<Longrightarrow> 0 < py_count s sub \<longleftrightarrow> py_contains s sub"
  by (induction s sub rule: py_count.induct) auto

lemma py_contains_trans:
  "py_contains s t \<Longrightarrow> py_contains t sub \<Longrightarrow> py_contains s sub"
proof -
  assume "py_contains s t" "py_contains t sub"
  then obtain p1 s1 p2 s2 where "s = p1 @ t @ s1" "t = p2 @ sub @ s2"
    unfolding py_contains_iff by blast
  then have "s = (p1 @ p2) @ sub @ (s2 @ s1)" by simp
  then show ?thesis unfolding py_contains_iff by blast
qed

lemma py_contains_join: "x \<in> set xs \<Longrightarrow> py_contains (py_join sep xs) x"
proof (induction sep xs rule: py_join.induct)
  case (1 sep)
  then show ?case by simp
next
  case (2 sep y)
  then have "y = [] @ x @ []" by simp
  then show ?case unfolding py_contains_iff py_join.simps by blast
next
  case (3 sep a b ys)
  show ?case
  proof (cases "x = a")
    case True
    have "py_join sep (a # b # ys) = [] @ a @ (sep @ py_join sep (b # ys))" by simp
    then show ?thesis unfolding py_contains_iff True by blast
  next
    case False
    then have "x \<in> set (b # ys)" using 3 by simp
    then have "py_contains (py_join sep (b # ys)) x" using 3 by blast
    then obtain pre suf where "py_join sep (b # ys) = pre @ x @ suf"
      unfolding py_contains_iff by blast
    then have "py_join sep (a # b # ys) = (a @ sep @ pre) @ x @ suf" by simp
    then show ?thesis unfolding py_contains_iff by blast
  qed
qed

section \<open>Emotion vocabulary analyzer\<close>

text \<open>
  \<^verbatim>\<open>EMOTION_VOCABULARY\<close>: five categories in the order \<^verbatim>\<open>happy, sad, angry, fear,
  surprise\<close>, each with its keyword list and its expression list, code point by code point.
  The fourth and fifth expressions of \<^verbatim>\<open>angry\<close> are \<^verbatim>\<open>"\u5927\u6012"\<close> and
  \<^verbatim>\<open>"\u52c3\u7136\u5927\u6012"\<close>: the second ends with the first.
\<close>

record emotion_config =
  cfg_keywords :: "pystr list"
  cfg_expressions :: "pystr list"

definition happy_config :: emotion_config where
  "happy_config = \<lparr>
     cfg_keywords =
       [[31505],
        [24320, 24515],
        [39640, 20852],
        [27426, 21916],
        [24841, 24555],
        [27427, 21916],
        [24555, 20048],
        [20048]],
     cfg_expressions =
       [[31505, 20102, 31505],
        [31505, 20102, 36215, 26469],
        [22068, 35282, 19978, 25196],
        [22068, 35282, 24494, 25196],
        [38706, 20986, 31505, 23481],
        [24320, 24515, 22320],
        [39640, 20852, 22320],
        [27427, 21916],
        [21916, 24742],
        [20048, 21621, 21621]]\<rparr>"

definition sad_config :: emotion_config where
  "sad_config = \<lparr>
     cfg_keywords =
       [[21741],
        [27882],
        [24754],
        [20260, 24515],
        [38590, 36807],
        [30171, 33510],
        [24551, 20260]],
     cfg_expressions =
       [[21497, 20102, 21475, 27668],
        [21497, 27668],
        [30524, 30518, 27867, 32418],
        [30524, 30518, 28287, 28070],
        [27969, 19979, 30524, 27882],
        [27882, 27969, 28385, 38754],
        [24754, 20260, 22320],
        [20260, 24515, 22320],
        [38590, 36807, 22320],
        [40687, 28982]]\<rparr>"

definition angry_config :: emotion_config where
  "angry_config = \<lparr>
     cfg_keywords =
       [[24594],
        [27668],
        [24868],
        [24700],
        [28779]],
     cfg_expressions =
       [[24594, 36947],
        [24594, 21564],
        [20919, 21756],
        [22823, 24594],
        [21187, 28982, 22823, 24594],
        [27668, 24868, 22320],
        [24868, 24594, 22320],
        [24594, 27668, 20914, 20914],
        [28779, 20882, 19977, 19976]]\<rparr>"

definition fear_config :: emotion_config where
  "fear_config = \<lparr>
     cfg_keywords =
       [[24597],
        [24807],
        [24656],
        [24778],
        [24908]],
     cfg_expressions =
       [[23475, 24597],
        [24656, 24807],
        [24778, 24656],
        [24778, 24908],
        [24908, 24352],
        [24515, 24778, 32966, 25112],
        [32966, 25112, 24515, 24778],
        [29791, 29791, 21457, 25238]]\<rparr>"

definition surprise_config :: emotion_config where
  "surprise_config = \<lparr>
     cfg_keywords =
       [[24778],
        [35766],
        [24853]],
     cfg_expressions =
       [[24778, 35766],
        [21507, 24778],
        [38663, 24778],
        [24853, 28982],
        [30446, 30634, 21475, 21574],
        [22823, 21507, 19968, 24778],
        [24778, 21574, 20102],
        [19981, 25954, 30456, 20449]]\<rparr>"

definition EMOTION_VOCABULARY :: "(pystr \<times> emotion_config) list" where
  "EMOTION_VOCABULARY =
     [(asc ''happy'', happy_config), (asc ''sad'', sad_config), (asc ''angry'', angry_config),
      (asc ''fear'', fear_config), (asc ''surprise'', surprise_config)]"

text \<open>The two expressions the double count is about.\<close>

definition expr_da_nu :: pystr where
  "expr_da_nu = [22823, 24594]"

definition expr_bo_ran_da_nu :: pystr where
  "expr_bo_ran_da_nu = [21187, 28982, 22823, 24594]"

type_synonym counter = "(pystr \<times> nat) list"

text \<open>
  \<^verbatim>\<open>count_emotion_expressions\<close>: one \<^verbatim>\<open>Counter\<close> per category; every expression is
  counted in the chapters joined by a newline, and stored when its count is positive.
\<close>

definition count_emotion_expressions :: "pystr list \<Rightarrow> (pystr \<times> counter) list" where
  "count_emotion_expressions chapters_content =
     (let full_text = py_join [10] chapters_content
      in map (\<lambda>(emotion, config).
                (emotion,
                 foldl (\<lambda>cnt expr.
                          let count = py_count full_text expr
                          in if 0 < count then dict_set expr count cnt else cnt)
                       [] (cfg_expressions config)))
             EMOTION_VOCABULARY)"

text \<open>
  The emotion statistics of one chapter, as \<^verbatim>\<open>analyze_single_chapter\<close> computes them: per
  category the summed count and the list of \<^verbatim>\<open>{"expr", "count"}\<close> entries found; a
  category is stored only when its summed count is positive.
\<close>

record emotion_stat =
  es_total :: nat
  es_expressions :: "(pystr \<times> nat) list"

definition scan_expressions :: "pystr \<Rightarrow> pystr list \<Rightarrow> nat \<times> (pystr \<times> nat) list" where
  "scan_expressions content exprs =
     foldl (\<lambda>(count, found_expressions) expr.
              let expr_count = py_count content expr
              in if 0 < expr_count
                 then (count + expr_count, found_expressions @ [(expr, expr_count)])
                 else (count, found_expressions))
           (0, []) exprs"

definition chapter_emotion_stats :: "pystr \<Rightarrow> (pystr \<times> emotion_stat) list" where
  "chapter_emotion_stats content =
     foldl (\<lambda>emotion_stats (emotion, config).
              let (count, found_expressions) = scan_expressions content (cfg_expressions config)
              in if 0 < count
                 then dict_set emotion
                        \<lparr>es_total = count, es_expressions = found_expressions\<rparr> emotion_stats
                 else emotion_stats)
           [] EMOTION_VOCABULARY"

section \<open>Template abstractor\<close>

text \<open>
  The placeholders of a template. \<^verbatim>\<open>[\u540d\u8bcd]\<close> is the noun placeholder,
  \<^verbatim>\<open>[\u4ee3\u8bcd]\<close> the pronoun, \<^verbatim>\<open>[\u526f\u8bcd]\<close> the adverb,
  \<^verbatim>\<open>[\u5f62\u5bb9\u8bcd]\<close> the adjective, \<^verbatim>\<open>[\u6570\u8bcd]\<close> the numeral.
\<close>

definition ph_noun :: pystr where
  "ph_noun = [91, 21517, 35789, 93]"

definition ph_pronoun :: pystr where
  "ph_pronoun = [91, 20195, 35789, 93]"

definition ph_adverb :: pystr where
  "ph_adverb = [91, 21103, 35789, 93]"

definition ph_adjective :: pystr where
  "ph_adjective = [91, 24418, 23481, 35789, 93]"

definition ph_numeral :: pystr where
  "ph_numeral = [91, 25968, 35789, 93]"

text \<open>
  \<^verbatim>\<open>VERB_SEMANTIC_GROUPS\<close>: nine semantic tags, each with its verbs. The tags are, in the
  order of the source,
  "[\u89c6\u89c9]", "[\u8a00\u8bed]", "[\u79fb\u52a8]", "[\u624b\u52a8]",
  "[\u60c5\u611f]", "[\u601d\u7ef4]", "[\u59ff\u6001]", "[\u5934\u52a8]",
  "[\u8868\u60c5]"
  (vision, speech, locomotion, hand, emotion, thought, posture, head, face). No verb
  occurs in two groups, so the reverse map \<^verbatim>\<open>VERB_TO_SEMANTIC\<close> does not depend on the
  order in which the source fills it.
\<close>

definition tag_vision :: pystr where
  "tag_vision = [91, 35270, 35273, 93]"

definition tag_speech :: pystr where
  "tag_speech = [91, 35328, 35821, 93]"

definition tag_motion :: pystr where
  "tag_motion = [91, 31227, 21160, 93]"

definition tag_hand :: pystr where
  "tag_hand = [91, 25163, 21160, 93]"

definition tag_emotion :: pystr where
  "tag_emotion = [91, 24773, 24863, 93]"

definition tag_thought :: pystr where
  "tag_thought = [91, 24605, 32500, 93]"

definition tag_posture :: pystr where
  "tag_posture = [91, 23039, 24577, 93]"

definition tag_head :: pystr where
  "tag_head = [91, 22836, 21160, 93]"

definition tag_face :: pystr where
  "tag_face = [91, 34920, 24773, 93]"

definition VERB_SEMANTIC_GROUPS :: "(pystr \<times> pystr list) list" where
  "VERB_SEMANTIC_GROUPS =
     [(tag_vision,
       [[30475], [26395], [30447], [30631], [30597],
        [35266, 23519], [27880, 35270], [20957, 35270], [25171, 37327], [23457, 35270],
        [30522, 26395], [20463, 35270], [20208, 26395], [29615, 39038], [25195, 35270]]),
      (tag_speech,
       [[35828], [36947], [35762], [38382], [31572],
        [22238, 31572], [22238, 24212], [21898], [21483], [21564],
        [22199], [22047, 22228], [20302, 35821], [21602, 21891], [36731, 22768]]),
      (tag_motion,
       [[36208], [36305], [20914], [22868], [39134],
        [36339], [29228], [28378], [28316], [31388],
        [38383], [36401], [28459, 27493], [30142, 27493], [24555, 27493]]),
      (tag_hand,
       [[25343], [25235], [25569], [25423], [25294],
        [25552], [20030], [25918], [25172], [20002],
        [36882], [25509], [25512], [25289], [25341],
        [25353], [25720], [30896], [35302]]),
      (tag_emotion,
       [[31505], [21741], [24594], [24778], [21916],
        [24754], [24680], [29233], [24597], [24908],
        [24833], [21497], [24867], [21574]]),
      (tag_thought,
       [[24819], [24605], [32771, 34385], [29730, 30952], [24605, 32034],
        [23547, 24605], [30424, 31639], [22238, 24518], [35760, 24471], [24536, 35760],
        [26126, 30333], [29702, 35299], [25026], [30693, 36947]]),
      (tag_posture,
       [[31449], [22352], [36538], [36466], [36276],
        [20506], [38752], [21351], [36330], [31435]]),
      (tag_head,
       [[28857, 22836], [25671, 22836], [25260, 22836], [20302, 22836], [36716, 22836],
        [22238, 22836], [20391, 22836], [20208, 22836], [22475, 22836]]),
      (tag_face,
       [[30385, 30473], [36441, 30473], [25361, 30473], [25196, 30473], [30511, 30524],
        [30634, 30524], [38381, 30524], [30529, 30524], [21676, 21767], [25279, 21767],
        [25735, 22068], [22047, 22068]])]"

definition VERB_TO_SEMANTIC :: "(pystr \<times> pystr) list" where
  "VERB_TO_SEMANTIC =
     foldl (\<lambda>d (semantic_tag, verbs). foldl (\<lambda>d verb. dict_set verb semantic_tag d) d verbs)
       [] VERB_SEMANTIC_GROUPS"

text \<open>The word sets of the character-class fallback (\<^verbatim>\<open>_extract_template_simple_impl\<close>).\<close>

definition common_verbs :: "pystr list" where
  "common_verbs =
     [[26159], [26377], [22312], [35828], [36947], [30475],
      [24819], [30693, 36947], [35273, 24471], [35748, 20026], [36208], [26469],
      [21435], [36305], [31449], [22352], [36538], [31505],
      [21741], [21898], [21483], [20570], [32473], [35753],
      [25226], [34987], [23545], [21521], [20174], [21040],
      [36807], [25171, 24320], [20851, 19978], [25343, 36215], [25918, 19979], [25260, 22836],
      [20302, 22836], [36716, 36523], [22238, 22836], [24320, 22987], [32467, 26463], [32487, 32493],
      [20572, 27490], [20986, 29616], [28040, 22833], [21457, 29616], [21548, 21040]]"

definition keep_words :: "pystr list" where
  "keep_words =
     [[30340], [22320], [24471], [20102], [30528], [36807],
      [21527], [21602], [21543], [21834], [21644], [19982],
      [25110], [20294], [20294, 26159], [28982, 32780], [22240, 20026], [25152, 20197],
      [22914, 26524], [23601], [37117], [20063], [36824], [21448],
      [20877], [25165], [21482], [24456], [22826], [19981],
      [27809], [27809, 26377], [19981, 26159], [19981, 20250], [19981, 33021]]"

definition pronouns :: "pystr list" where
  "pronouns =
     [[25105], [20320], [20182], [22905], [23427], [25105, 20204],
      [20320, 20204], [20182, 20204], [22905, 20204], [23427, 20204], [36825], [37027],
      [36825, 20010], [37027, 20010], [36825, 20123], [37027, 20123], [33258, 24049], [22823, 23478],
      [35841]]"

text \<open>
  The punctuation kept verbatim. The source writes it as two adjacent string literals,
  which Python concatenates; the double quote U+0022 is in it (twice), the single
  quote is not.
\<close>

definition punctuation :: pystr where
  "punctuation =
     [65292, 12290, 65281, 65311, 12289, 65307, 65306, 34, 34, 65288, 65289, 12304, 12305, 12298, 12299, 8230, 8212]"

text \<open>\<^verbatim>\<open>s.startswith(p)\<close>.\<close>

definition py_startswith :: "pystr \<Rightarrow> pystr \<Rightarrow> bool" where
  "py_startswith s p = (take (length p) s = p)"

text \<open>
  The fallback strategy \<^verbatim>\<open>_extract_template_simple_impl\<close>. \<open>simple_char\<close> is the
  single-character branch of the loop body, \<open>simple_scan\<close> the \<^verbatim>\<open>while i < len(text)\<close>
  loop on the text from index \<open>i\<close> on: a two-character word is tried first when two
  characters are left. Only the noun placeholder is merged with a preceding equal one;
  the pronoun placeholder is appended as it comes.
\<close>

definition simple_char :: "int \<Rightarrow> pystr list \<Rightarrow> pystr list" where
  "simple_char char result =
     (if [char] \<in> set common_verbs \<or> [char] \<in> set keep_words then result @ [[char]]
      else if [char] \<in> set pronouns then result @ [ph_pronoun]
      else if char \<in> set punctuation then result @ [[char]]
      else if 19968 \<le> char \<and> char \<le> 40959
           then (if result \<noteq> [] \<and> last result = ph_noun then result
                 else result @ [ph_noun])
      else result @ [[char]])"

fun simple_scan :: "pystr \<Rightarrow> pystr list \<Rightarrow> pystr list" where
  "simple_scan [] result = result"
| "simple_scan [char] result = simple_char char result"
| "simple_scan (char # c2 # rest) result =
     (let two_char = [char, c2]
      in if two_char \<in> set common_verbs \<or> two_char \<in> set keep_words
         then simple_scan rest (result @ [two_char])
         else if two_char \<in> set pronouns
         then simple_scan rest (result @ [ph_pronoun])
         else simple_scan (c2 # rest) (simple_char char result))"

definition extract_template_simple_impl :: "pystr \<Rightarrow> pystr" where
  "extract_template_simple_impl sentence = concat (simple_scan sentence [])"

text \<open>
  The tagger-backed strategy \<^verbatim>\<open>_extract_template_with_jieba_impl\<close>. The tagger
  \<^verbatim>\<open>jieba.posseg.cut\<close> is a library outside the repository: it is a parameter,
  giving the \<^verbatim>\<open>(word, flag)\<close> pairs of a sentence. \<open>jieba_item\<close> is the body of the first
  loop, \<open>merge_placeholders\<close> the second loop with its variable \<^verbatim>\<open>prev\<close>.
\<close>

type_synonym tagger = "pystr \<Rightarrow> (pystr \<times> pystr) list"

definition jieba_item :: "pystr \<times> pystr \<Rightarrow> pystr" where
  "jieba_item token =
     (let word = fst token; flag = snd token
      in if py_startswith flag (asc ''n'') then ph_noun
         else if flag = asc ''r'' then ph_pronoun
         else if py_startswith flag (asc ''v'')
              then (case dict_get VERB_TO_SEMANTIC word of
                      Some semantic \<Rightarrow> if semantic \<noteq> [] then semantic else word
                    | None \<Rightarrow> word)
         else if flag = asc ''d'' then ph_adverb
         else if py_startswith flag (asc ''a'') then ph_adjective
         else if flag = asc ''m'' then ph_numeral
         else if flag = asc ''p'' then word
         else if flag \<in> set [asc ''c'', asc ''u'', asc ''e'', asc ''y'', asc ''o'', asc ''w'']
              then word
         else word)"

fun merge_placeholders :: "pystr option \<Rightarrow> pystr list \<Rightarrow> pystr list" where
  "merge_placeholders prev [] = []"
| "merge_placeholders prev (item # items) =
     (if py_startswith item (asc ''['') \<and> Some item = prev
      then merge_placeholders prev items
      else item # merge_placeholders (Some item) items)"

definition extract_template_with_jieba_impl :: "tagger option \<Rightarrow> pystr \<Rightarrow> pystr" where
  "extract_template_with_jieba_impl jieba sentence =
     (case jieba of
        None \<Rightarrow> extract_template_simple_impl sentence
      | Some pseg_cut \<Rightarrow>
          concat (merge_placeholders None (map jieba_item (pseg_cut sentence))))"

text \<open>
  \<^verbatim>\<open>extract_template_cached\<close> chooses the strategy by \<^verbatim>\<open>JIEBA_AVAILABLE\<close>, here whether a
  tagger is given. Its \<^verbatim>\<open>lru_cache\<close> memoises a function of the sentence alone and does
  not change what is returned. \<^verbatim>\<open>extract_templates_batch\<close> computes the template of
  each distinct sentence once and returns them in the order of the sentences.
\<close>

definition extract_template_cached :: "tagger option \<Rightarrow> pystr \<Rightarrow> pystr" where
  "extract_template_cached jieba sentence =
     (if jieba \<noteq> None then extract_template_with_jieba_impl jieba sentence
      else extract_template_simple_impl sentence)"

definition extract_templates_batch :: "tagger option \<Rightarrow> pystr list \<Rightarrow> pystr list" where
  "extract_templates_batch jieba sentences = map (extract_template_cached jieba) sentences"

section \<open>Segmenter\<close>

text \<open>
  \<^verbatim>\<open>split_sentences\<close> splits at every match of the regular expression
  \<^verbatim>\<open>[\u3002\uff01\uff1f!?]+"?\<close>: a longest run of sentence-final marks, then one double
  quote if there is one. \<open>re_split\<close> is \<^verbatim>\<open>re.split\<close> for this pattern; \<open>cur\<close> is the
  piece collected since the last match. Then each piece is stripped of white space and
  kept when more than 3 characters are left.
\<close>

definition is_terminator :: "int \<Rightarrow> bool" where
  "is_terminator c = (c \<in> set [12290, 65281, 65311, 33, 63])"

definition skip_quote :: "pystr \<Rightarrow> pystr" where
  "skip_quote s = (case s of [] \<Rightarrow> [] | q # r \<Rightarrow> if q = 34 then r else q # r)"

function re_split :: "pystr \<Rightarrow> pystr \<Rightarrow> pystr list" where
  "re_split cur [] = [cur]"
| "re_split cur (c # cs) =
     (if is_terminator c then cur # re_split [] (skip_quote (dropWhile is_terminator cs))
      else re_split (cur @ [c]) cs)"
  by pat_completeness auto
termination
proof (relation "measure (\<lambda>(cur, s). length s)")
  show "wf (measure (\<lambda>(cur, s). length s))" by simp
next
  fix cur :: pystr and c :: int and cs :: pystr
  have "length (skip_quote (dropWhile is_terminator cs)) \<le> length (dropWhile is_terminator cs)"
    by (simp add: skip_quote_def split: list.splits)
  also have "\<dots> \<le> length cs" by (rule length_dropWhile_le)
  finally show "((([], skip_quote (dropWhile is_terminator cs))), (cur, c # cs))
        \<in> measure (\<lambda>(cur, s). length s)" by simp
next
  fix cur :: pystr and c :: int and cs :: pystr
  show "((cur @ [c], cs), (cur, c # cs)) \<in> measure (\<lambda>(cur, s). length s)" by simp
qed

text \<open>White space as \<^verbatim>\<open>str.strip()\<close> sees it: the code points with \<^verbatim>\<open>str.isspace()\<close>.\<close>

definition is_space :: "int \<Rightarrow> bool" where
  "is_space c =
     ((9 \<le> c \<and> c \<le> 13) \<or> (28 \<le> c \<and> c \<le> 32) \<or> c = 133 \<or> c = 160 \<or> c = 5760
      \<or> (8192 \<le> c \<and> c \<le> 8202) \<or> c = 8232 \<or> c = 8233 \<or> c = 8239 \<or> c = 8287
      \<or> c = 12288)"

definition py_strip :: "pystr \<Rightarrow> pystr" where
  "py_strip s = rev (dropWhile is_space (rev (dropWhile is_space s)))"

definition split_sentences :: "pystr \<Rightarrow> pystr list" where
  "split_sentences text =
     map py_strip (filter (\<lambda>s. s \<noteq> [] \<and> 3 < length (py_strip s)) (re_split [] text))"

section \<open>Opening analyzer\<close>

text \<open>\<^verbatim>\<open>OPENING_KEYWORDS\<close>.\<close>

definition opening_time :: "pystr list" where
  "opening_time =
     [[28165, 26216], [26089, 19978], [19978, 21320], [20013, 21320], [19979, 21320], [20621, 26202],
      [40644, 26127], [22812, 26202], [28145, 22812], [20940, 26216], [22825, 20142], [22825, 40657],
      [26085, 20986], [26085, 33853], [21320, 21518], [22812, 28145], [25282, 26195], [40654, 26126],
      [31532, 20108, 22825], [31532, 19977, 22825], [20960, 22825, 21518], [19968, 21608, 21518], [19968, 20010, 26376, 21518], [27425, 26085]]"

definition opening_weather :: "pystr list" where
  "opening_weather =
     [[38451, 20809], [26376, 20809], [26143, 20809], [32454, 38632], [22823, 38632], [26292, 38632],
      [39118], [38634], [20113], [38654], [26228, 26391], [38452, 27785],
      [20044, 20113], [38647, 30005], [38378, 30005]]"

definition opening_action :: "pystr list" where
  "opening_action =
     [[36208, 36827], [25512, 24320], [25171, 24320], [20851, 19978], [31449, 22312], [22352, 22312],
      [36538, 22312], [36305, 21521], [20914, 21521]]"

definition opening_dialogue :: "pystr list" where
  "opening_dialogue =
     [[12300], [34], [39], [8220], [12302]]"

text \<open>
  \<^verbatim>\<open>analyze_opening_type\<close>: a dialogue marker at the start of the stripped sentence,
  else a time keyword in the first 20 characters, else a weather keyword in the first
  30, else an action keyword in the first 15, else \<^verbatim>\<open>"other"\<close>.
\<close>

definition analyze_opening_type :: "pystr \<Rightarrow> pystr" where
  "analyze_opening_type sentence =
     (if \<exists>marker \<in> set opening_dialogue. py_startswith (py_strip sentence) marker
      then asc ''dialogue''
      else if \<exists>keyword \<in> set opening_time. py_contains (take 20 sentence) keyword
      then asc ''time''
      else if \<exists>keyword \<in> set opening_weather. py_contains (take 30 sentence) keyword
      then asc ''weather''
      else if \<exists>keyword \<in> set opening_action. py_contains (take 15 sentence) keyword
      then asc ''action''
      else asc ''other'')"

section \<open>Per-chapter analysis\<close>

text \<open>
  The dictionaries the engine passes around are records. A \<open>template_entry\<close> is one
  element of the \<^verbatim>\<open>templates\<close> list of a chapter analysis (and of a cache entry); an
  \<open>item\<close> is such an entry extended with the chapter's id, number and title, as the
  aggregation step builds it with \<^verbatim>\<open>{**t, "chapter_id": ...}\<close>. The key \<^verbatim>\<open>"text"\<close> is
  the field \<open>sent_text\<close>.
\<close>

record template_entry =
  sent_text :: pystr
  template :: pystr
  position :: nat
  is_opening :: bool
  is_ending :: bool

record item = template_entry +
  chapter_id :: pystr
  chapter_number :: int
  chapter_title :: pystr

record chapter_analysis =
  ca_chapter_id :: pystr
  ca_chapter_number :: int
  ca_chapter_title :: "pystr option"
  ca_templates :: "template_entry list"
  ca_sentence_count :: nat
  ca_opening_type :: "pystr option"
  ca_emotion_stats :: "(pystr \<times> emotion_stat) list"

text \<open>
  The flags of the sentence at index \<open>i\<close> of \<open>n\<close>:
  \<^verbatim>\<open>"is_opening": i < 3\<close> and
  \<^verbatim>\<open>"is_ending": i >= len(sentences) - 3 if len(sentences) > 3 else False\<close>.
\<close>

definition opening_flag :: "nat \<Rightarrow> bool" where
  "opening_flag i = (i < 3)"

definition ending_flag :: "nat \<Rightarrow> nat \<Rightarrow> bool" where
  "ending_flag i n = (if 3 < n then int n - 3 \<le> int i else False)"

text \<open>
  \<^verbatim>\<open>analyze_single_chapter\<close>. With empty content the result has no
  \<^verbatim>\<open>chapter_title\<close> key.
\<close>

definition analyze_single_chapter ::
  "tagger option \<Rightarrow> pystr \<Rightarrow> int \<Rightarrow> pystr \<Rightarrow> pystr \<Rightarrow> chapter_analysis" where
  "analyze_single_chapter jieba cid number content title =
     (if content = []
      then \<lparr>ca_chapter_id = cid, ca_chapter_number = number, ca_chapter_title = None,
            ca_templates = [], ca_sentence_count = 0, ca_opening_type = None,
            ca_emotion_stats = []\<rparr>
      else
        let sentences = split_sentences content;
            template_strs = extract_templates_batch jieba sentences;
            templates =
              map (\<lambda>(i, (sent, tmpl)).
                     \<lparr>sent_text = sent, template = tmpl, position = i,
                      is_opening = opening_flag i,
                      is_ending = ending_flag i (length sentences)\<rparr>)
                  (List.enumerate 0 (zip sentences template_strs));
            opening_type =
              (case sentences of [] \<Rightarrow> None | s # _ \<Rightarrow> Some (analyze_opening_type s))
        in \<lparr>ca_chapter_id = cid, ca_chapter_number = number, ca_chapter_title = Some title,
            ca_templates = templates, ca_sentence_count = length sentences,
            ca_opening_type = opening_type,
            ca_emotion_stats = chapter_emotion_stats content\<rparr>)"

text \<open>
  The sentence records of the full analysis (\<^verbatim>\<open>analyze_project_patterns\<close>, step 2): the
  chapters with content, each split into sentences that carry the same two flags.
\<close>

record chapter_row =
  ch_id :: pystr
  ch_project_id :: pystr
  ch_number :: int
  ch_title :: pystr
  ch_content :: pystr

record sentence_record =
  s_text :: pystr
  s_chapter_id :: pystr
  s_chapter_number :: int
  s_chapter_title :: "pystr option"
  s_position :: nat
  s_is_opening :: bool
  s_is_ending :: bool

definition chapter_sentences :: "chapter_row \<Rightarrow> sentence_record list" where
  "chapter_sentences ch =
     (let sentences = split_sentences (ch_content ch)
      in map (\<lambda>(i, sent).
                \<lparr>s_text = sent, s_chapter_id = ch_id ch, s_chapter_number = ch_number ch,
                 s_chapter_title = Some (ch_title ch), s_position = i,
                 s_is_opening = opening_flag i,
                 s_is_ending = ending_flag i (length sentences)\<rparr>)
             (List.enumerate 0 sentences))"

definition collect_sentences :: "chapter_row list \<Rightarrow> sentence_record list" where
  "collect_sentences chapters =
     concat (map chapter_sentences (filter (\<lambda>ch. ch_content ch \<noteq> []) chapters))"

section \<open>Properties of the emotion counters and of the sentence flags\<close>

subsection \<open>Dictionaries and counters\<close>

lemma dict_get_dict_set:
  "dict_get (dict_set k v d) k' = (if k' = k then Some v else dict_get d k')"
  by (induction d) (auto simp: dict_get_def)

lemma foldl_dict_set_other:
  "k \<notin> kf ` set xs \<Longrightarrow>
   dict_get (foldl (\<lambda>d x. if P x then dict_set (kf x) (vf x) d else d) d0 xs) k = dict_get d0 k"
  by (induction xs arbitrary: d0) (auto simp: dict_get_dict_set)

lemma foldl_dict_set_get:
  "distinct (map kf xs) \<Longrightarrow> x \<in> set xs \<Longrightarrow> P x \<Longrightarrow>
   dict_get (foldl (\<lambda>d x. if P x then dict_set (kf x) (vf x) d else d) d0 xs) (kf x) = Some (vf x)"
proof (induction xs arbitrary: d0)
  case Nil
  then show ?case by simp
next
  case (Cons y ys)
  show ?case
  proof (cases "x = y")
    case True
    then have "kf x \<notin> kf ` set ys" using Cons.prems by auto
    then show ?thesis using True Cons.prems
      by (simp add: foldl_dict_set_other dict_get_dict_set)
  next
    case False
    then show ?thesis using Cons by auto
  qed
qed

lemma dict_get_mem: "dict_get d k = Some v \<Longrightarrow> (k, v) \<in> set d"
  by (simp add: dict_get_def map_of_SomeD)

lemma entry_le_sum_list:
  fixes d :: "('k \<times> nat) list"
  shows "(k, c) \<in> set d \<Longrightarrow> c \<le> sum_list (map snd d)"
  by (induction d) auto

lemma sum_list_two_entries:
  fixes d :: "('k \<times> nat) list"
  shows "(k1, a) \<in> set d \<Longrightarrow> (k2, b) \<in> set d \<Longrightarrow> k1 \<noteq> k2 \<Longrightarrow> a + b \<le> sum_list (map snd d)"
proof (induction d)
  case Nil
  then show ?case by simp
next
  case (Cons x d)
  consider "x = (k1, a)" "(k2, b) \<in> set d" | "x = (k2, b)" "(k1, a) \<in> set d"
    | "(k1, a) \<in> set d" "(k2, b) \<in> set d"
    using Cons.prems by auto
  then show ?case
  proof cases
    case 1
    then show ?thesis using entry_le_sum_list [of k2 b d] by simp
  next
    case 2
    then show ?thesis using entry_le_sum_list [of k1 a d] by simp
  next
    case 3
    then have "a + b \<le> sum_list (map snd d)" using Cons by blast
    then show ?thesis by simp
  qed
qed

lemma scan_expressions_acc:
  "foldl (\<lambda>(count, found_expressions) expr.
              let expr_count = py_count content expr
              in if 0 < expr_count
                 then (count + expr_count, found_expressions @ [(expr, expr_count)])
                 else (count, found_expressions))
           (c0, f0) exprs
   = (c0 + sum_list (map snd (filter (\<lambda>(e, c). 0 < c) (map (\<lambda>e. (e, py_count content e)) exprs))),
      f0 @ filter (\<lambda>(e, c). 0 < c) (map (\<lambda>e. (e, py_count content e)) exprs))"
  by (induction exprs arbitrary: c0 f0) (auto simp: Let_def)

subsection \<open>Counting an expression that contains another\<close>

lemma scan_expressions_eq:
  "scan_expressions content exprs =
     (sum_list (map snd (filter (\<lambda>(e, c). 0 < c) (map (\<lambda>e. (e, py_count content e)) exprs))),
      filter (\<lambda>(e, c). 0 < c) (map (\<lambda>e. (e, py_count content e)) exprs))"
  unfolding scan_expressions_def by (simp add: scan_expressions_acc)

lemma da_nu_in_bo_ran: "py_contains expr_bo_ran_da_nu expr_da_nu"
  by (simp add: expr_bo_ran_da_nu_def expr_da_nu_def)

lemma da_nu_counted: "0 < py_count text expr_bo_ran_da_nu \<Longrightarrow> 0 < py_count text expr_da_nu"
proof -
  assume "0 < py_count text expr_bo_ran_da_nu"
  then have "py_contains text expr_bo_ran_da_nu"
    by (simp add: py_count_pos_iff expr_bo_ran_da_nu_def)
  then have "py_contains text expr_da_nu"
    using da_nu_in_bo_ran py_contains_trans by blast
  then show ?thesis by (simp add: py_count_pos_iff expr_da_nu_def)
qed

lemma angry_expressions_distinct: "distinct (cfg_expressions angry_config)"
  by (simp add: angry_config_def)

lemma angry_members:
  "expr_da_nu \<in> set (cfg_expressions angry_config)"
  "expr_bo_ran_da_nu \<in> set (cfg_expressions angry_config)"
  by (simp_all add: angry_config_def expr_da_nu_def expr_bo_ran_da_nu_def)

lemma da_nu_neq: "expr_da_nu \<noteq> expr_bo_ran_da_nu"
  by (simp add: expr_da_nu_def expr_bo_ran_da_nu_def)

lemma vocabulary_distinct: "distinct (map fst EMOTION_VOCABULARY)"
  by (simp add: EMOTION_VOCABULARY_def asc_def)

lemma angry_in_vocabulary: "(asc ''angry'', angry_config) \<in> set EMOTION_VOCABULARY"
  by (simp add: EMOTION_VOCABULARY_def)

lemma dict_get_map_value:
  "distinct (map fst d) \<Longrightarrow> (k, v) \<in> set d \<Longrightarrow>
   dict_get (map (\<lambda>(k, v). (k, f v)) d) k = Some (f v)"
  by (induction d) (auto simp: dict_get_def rev_image_eqI)

lemma counter_of_corpus:
  assumes "e \<in> set (cfg_expressions angry_config)"
    and "0 < py_count (py_join [10] chapters_content) e"
    and "dict_get (count_emotion_expressions chapters_content) (asc ''angry'') = Some cnt"
  shows "dict_get cnt e = Some (py_count (py_join [10] chapters_content) e)"
proof -
  let ?full = "py_join [10] chapters_content"
  let ?F = "\<lambda>config. foldl (\<lambda>cnt expr. if 0 < py_count ?full expr
                                    then dict_set expr (py_count ?full expr) cnt else cnt)
                 [] (cfg_expressions config)"
  have "count_emotion_expressions chapters_content
          = map (\<lambda>(emotion, config). (emotion, ?F config)) EMOTION_VOCABULARY"
    by (simp add: count_emotion_expressions_def Let_def)
  then have "dict_get (count_emotion_expressions chapters_content) (asc ''angry'')
          = Some (?F angry_config)"
    using dict_get_map_value [OF vocabulary_distinct angry_in_vocabulary, of ?F] by simp
  then have cnt: "cnt = ?F angry_config" using assms(3) by simp
  show ?thesis
    unfolding cnt
    using foldl_dict_set_get [where kf = "\<lambda>x. x" and P = "\<lambda>x. 0 < py_count ?full x"
        and vf = "\<lambda>x. py_count ?full x" and xs = "cfg_expressions angry_config" and x = e
        and ?d0.0 = "[]"]
      angry_expressions_distinct assms(1,2)
    by simp
qed

lemma corpus_counter_exists:
  "\<exists>cnt. dict_get (count_emotion_expressions chapters_content) (asc ''angry'') = Some cnt"
proof -
  have "dict_get (count_emotion_expressions chapters_content) (asc ''angry'') \<noteq> None"
    by (simp add: count_emotion_expressions_def Let_def EMOTION_VOCABULARY_def dict_get_def
        asc_def)
  then show ?thesis by blast
qed

lemma chapter_stats_angry:
  assumes "0 < fst (scan_expressions content (cfg_expressions angry_config))"
  shows "dict_get (chapter_emotion_stats content) (asc ''angry'')
           = Some \<lparr>es_total = fst (scan_expressions content (cfg_expressions angry_config)),
                   es_expressions = snd (scan_expressions content (cfg_expressions angry_config))\<rparr>"
proof -
  let ?g = "\<lambda>config. scan_expressions content (cfg_expressions config)"
  have eq: "chapter_emotion_stats content
      = foldl (\<lambda>d x. if 0 < fst (?g (snd x))
                      then dict_set (fst x) \<lparr>es_total = fst (?g (snd x)),
                                               es_expressions = snd (?g (snd x))\<rparr> d
                      else d) [] EMOTION_VOCABULARY"
    unfolding chapter_emotion_stats_def
    by (rule arg_cong [where f = "\<lambda>f. foldl f [] EMOTION_VOCABULARY"])
       (auto simp: fun_eq_iff Let_def split: prod.splits)
  show ?thesis
    unfolding eq
    using foldl_dict_set_get [where kf = fst and P = "\<lambda>x. 0 < fst (?g (snd x))"
        and vf = "\<lambda>x. \<lparr>es_total = fst (?g (snd x)), es_expressions = snd (?g (snd x))\<rparr>"
        and xs = EMOTION_VOCABULARY and x = "(asc ''angry'', angry_config)" and ?d0.0 = "[]"]
      vocabulary_distinct angry_in_vocabulary assms
    by simp
qed

lemma scan_found_member:
  "e \<in> set exprs \<Longrightarrow> 0 < py_count content e \<Longrightarrow>
   (e, py_count content e) \<in> set (snd (scan_expressions content exprs))"
  by (auto simp: scan_expressions_eq)

lemma scan_total_is_sum:
  "fst (scan_expressions content exprs) = sum_list (map snd (snd (scan_expressions content exprs)))"
  by (simp add: scan_expressions_eq)

lemma dict_set_fresh: "k \<notin> fst ` set d \<Longrightarrow> dict_set k v d = d @ [(k, v)]"
  by (induction d) auto

lemma foldl_dict_set_fresh:
  "distinct (map kf xs) \<Longrightarrow> kf ` set xs \<inter> fst ` set d0 = {} \<Longrightarrow>
   foldl (\<lambda>d x. if P x then dict_set (kf x) (vf x) d else d) d0 xs
     = d0 @ map (\<lambda>x. (kf x, vf x)) (filter P xs)"
proof (induction xs arbitrary: d0)
  case Nil
  then show ?case by simp
next
  case (Cons x xs)
  show ?case
  proof (cases "P x")
    case True
    have fresh: "kf x \<notin> fst ` set d0" using Cons.prems(2) by auto
    have d: "distinct (map kf xs)" using Cons.prems(1) by simp
    have "kf ` set xs \<inter> fst ` set (d0 @ [(kf x, vf x)]) = {}"
      using Cons.prems by auto
    from Cons.IH [OF d this] show ?thesis
      using True by (simp add: dict_set_fresh [OF fresh])
  next
    case False
    have d: "distinct (map kf xs)" using Cons.prems(1) by simp
    have "kf ` set xs \<inter> fst ` set d0 = {}" using Cons.prems(2) by auto
    from Cons.IH [OF d this] show ?thesis using False by simp
  qed
qed

lemma corpus_counter_exact:
  assumes "dict_get (count_emotion_expressions chapters_content) (asc ''angry'') = Some cnt"
  shows "cnt = map (\<lambda>e. (e, py_count (py_join [10] chapters_content) e))
                 (filter (\<lambda>e. 0 < py_count (py_join [10] chapters_content) e)
                    (cfg_expressions angry_config))"
proof -
  let ?full = "py_join [10] chapters_content"
  let ?F = "\<lambda>config. foldl (\<lambda>cnt expr. if 0 < py_count ?full expr
                                    then dict_set expr (py_count ?full expr) cnt else cnt)
                 [] (cfg_expressions config)"
  have "count_emotion_expressions chapters_content
          = map (\<lambda>(emotion, config). (emotion, ?F config)) EMOTION_VOCABULARY"
    by (simp add: count_emotion_expressions_def Let_def)
  then have "dict_get (count_emotion_expressions chapters_content) (asc ''angry'')
          = Some (?F angry_config)"
    using dict_get_map_value [OF vocabulary_distinct angry_in_vocabulary, of ?F] by simp
  then have cnt: "cnt = ?F angry_config" using assms by simp
  have "?F angry_config = [] @ map (\<lambda>x. (x, py_count ?full x))
                                 (filter (\<lambda>x. 0 < py_count ?full x) (cfg_expressions angry_config))"
    by (rule foldl_dict_set_fresh [where kf = "\<lambda>x. x"])
       (use angry_expressions_distinct in simp_all)
  then show ?thesis unfolding cnt by simp
qed

lemma scan_found_exact:
  "snd (scan_expressions content exprs)
     = map (\<lambda>e. (e, py_count content e)) (filter (\<lambda>e. 0 < py_count content e) exprs)"
proof -
  have "filter (\<lambda>(e, c). 0 < c) (map (\<lambda>e. (e, py_count content e)) exprs)
      = map (\<lambda>e. (e, py_count content e)) (filter (\<lambda>e. 0 < py_count content e) exprs)"
    by (induction exprs) auto
  then show ?thesis by (simp add: scan_expressions_eq)
qed

lemma da_nu_count_cons: "py_count s expr_da_nu \<le> py_count (x # s) expr_da_nu"
proof (cases "take 2 (x # s) = expr_da_nu")
  case True
  then obtain rest where s: "s = 24594 # rest" and x: "x = 22823"
    by (cases s) (auto simp: expr_da_nu_def)
  have "py_count s expr_da_nu = py_count rest expr_da_nu"
    unfolding s by (simp add: expr_da_nu_def)
  moreover have "py_count (x # s) expr_da_nu = Suc (py_count rest expr_da_nu)"
    unfolding s x by (simp add: expr_da_nu_def)
  ultimately show ?thesis by simp
next
  case False
  then show ?thesis by (auto simp: expr_da_nu_def)
qed

lemma nested_count_le: "py_count s expr_bo_ran_da_nu \<le> py_count s expr_da_nu"
proof (induction s expr_bo_ran_da_nu rule: py_count.induct)
  case 1
  show ?case by (simp add: expr_bo_ran_da_nu_def expr_da_nu_def)
next
  case (2 c cs)
  have ne: "expr_bo_ran_da_nu \<noteq> []" by (simp add: expr_bo_ran_da_nu_def)
  show ?case
  proof (cases "take (length expr_bo_ran_da_nu) (c # cs) = expr_bo_ran_da_nu")
    case True
    have "c # cs = take (length expr_bo_ran_da_nu) (c # cs) @ drop (length expr_bo_ran_da_nu) (c # cs)"
      by simp
    then have eq: "c # cs = expr_bo_ran_da_nu @ drop (length expr_bo_ran_da_nu) (c # cs)"
      using True by simp
    let ?rest = "drop (length expr_bo_ran_da_nu) (c # cs)"
    have ih: "py_count ?rest expr_bo_ran_da_nu \<le> py_count ?rest expr_da_nu"
      using 2(2) [OF ne True] .
    have l: "py_count (c # cs) expr_bo_ran_da_nu = Suc (py_count ?rest expr_bo_ran_da_nu)"
      using True ne by simp
    have "py_count (expr_bo_ran_da_nu @ ?rest) expr_da_nu = Suc (py_count ?rest expr_da_nu)"
      by (simp add: expr_bo_ran_da_nu_def expr_da_nu_def)
    then have r: "py_count (c # cs) expr_da_nu = Suc (py_count ?rest expr_da_nu)"
      using eq by simp
    show ?thesis unfolding l r using ih by simp
  next
    case False
    have ih: "py_count cs expr_bo_ran_da_nu \<le> py_count cs expr_da_nu"
      using 2(3) [OF ne False] .
    have l: "py_count (c # cs) expr_bo_ran_da_nu = py_count cs expr_bo_ran_da_nu"
      using False ne by simp
    show ?thesis unfolding l using ih da_nu_count_cons [of cs c] by linarith
  qed
qed

lemma enumerate_flags:
  "(i, x) \<in> set (List.enumerate 0 xs) \<Longrightarrow> length xs \<le> 3 \<Longrightarrow>
   opening_flag i \<and> \<not> ending_flag i (length xs)"
  by (auto simp: in_set_enumerate_eq opening_flag_def ending_flag_def)

text \<open>
  Claim C9. A chapter with at most 3 sentences has no sentence flagged as an ending,
  and all of them flagged as openings, in the sentence records of the full analysis
  (\<open>chapter_sentences\<close>) and in the templates of the per-chapter analysis
  (\<open>analyze_single_chapter\<close>) alike.
\<close>

theorem short_chapter_flags:
  assumes "length (split_sentences (ch_content ch)) \<le> 3"
  shows "(\<forall>s \<in> set (chapter_sentences ch). s_is_opening s \<and> \<not> s_is_ending s)
       \<and> (\<forall>t \<in> set (ca_templates (analyze_single_chapter jieba (ch_id ch) (ch_number ch)
                                      (ch_content ch) (ch_title ch))).
             is_opening t \<and> \<not> is_ending t)"
proof
  show "\<forall>s \<in> set (chapter_sentences ch). s_is_opening s \<and> \<not> s_is_ending s"
    using assms enumerate_flags [of _ _ "split_sentences (ch_content ch)"]
    by (auto simp: chapter_sentences_def Let_def)
next
  let ?ss = "split_sentences (ch_content ch)"
  have len: "length (zip ?ss (extract_templates_batch jieba ?ss)) = length ?ss"
    by (simp add: extract_templates_batch_def)
  show "\<forall>t \<in> set (ca_templates (analyze_single_chapter jieba (ch_id ch) (ch_number ch)
                                      (ch_content ch) (ch_title ch))).
             is_opening t \<and> \<not> is_ending t"
  proof (cases "ch_content ch = []")
    case True
    then show ?thesis by (simp add: analyze_single_chapter_def)
  next
    case False
    show ?thesis
      using assms False len
        enumerate_flags [of _ _ "zip ?ss (extract_templates_batch jieba ?ss)"]
      by (auto simp: analyze_single_chapter_def Let_def)
  qed
qed

text \<open>
  An example chapter with two sentences, \<^verbatim>\<open>"\u5979\u52c3\u7136\u5927\u6012\uff01\u5929\u6c14\u5f88\u597d\u5462\u3002"\<close>.
\<close>

definition example_short_chapter :: chapter_row where
  "example_short_chapter =
     \<lparr>ch_id = asc ''c1'', ch_project_id = asc ''p1'', ch_number = 1, ch_title = asc ''t'',
      ch_content = [22905, 21187, 28982, 22823, 24594, 65281,
                    22825, 27668, 24456, 22909, 21602, 12290]\<rparr>"

theorem short_chapter_flags_witness:
  "length (split_sentences (ch_content example_short_chapter)) \<le> 3
   \<and> length (chapter_sentences example_short_chapter) = 2
   \<and> list_all (\<lambda>s. s_is_opening s \<and> \<not> s_is_ending s)
        (chapter_sentences example_short_chapter)
   \<and> length (ca_templates (analyze_single_chapter None (ch_id example_short_chapter)
        (ch_number example_short_chapter) (ch_content example_short_chapter)
        (ch_title example_short_chapter))) = 2
   \<and> list_all (\<lambda>t. is_opening t \<and> \<not> is_ending t)
        (ca_templates (analyze_single_chapter None (ch_id example_short_chapter)
           (ch_number example_short_chapter) (ch_content example_short_chapter)
           (ch_title example_short_chapter)))"
proof -
  have h: "length (split_sentences (ch_content example_short_chapter)) \<le> 3" by code_simp
  have n: "length (chapter_sentences example_short_chapter) = 2" by code_simp
  have m: "length (ca_templates (analyze_single_chapter None (ch_id example_short_chapter)
        (ch_number example_short_chapter) (ch_content example_short_chapter)
        (ch_title example_short_chapter))) = 2" by code_simp
  show ?thesis
    using h n m short_chapter_flags [OF h, of None] by (simp add: list_all_iff)
qed

text \<open>
  Claim C10. The counts are independent substring counts, one \<^verbatim>\<open>str.count\<close> for each
  expression of the catalog. In the whole-corpus counter the \<^verbatim>\<open>angry\<close> counter is exactly the
  catalog's expressions that occur in the joined text, each with its own \<^verbatim>\<open>str.count\<close> there;
  in the statistics of a chapter the \<^verbatim>\<open>angry\<close> entry lists exactly the expressions that occur
  in the chapter, each with its own \<^verbatim>\<open>str.count\<close>, and its total is their sum. So for a text in
  which \<^verbatim>\<open>"\u52c3\u7136\u5927\u6012"\<close> occurs, both \<^verbatim>\<open>"\u52c3\u7136\u5927\u6012"\<close> and \<^verbatim>\<open>"\u5927\u6012"\<close> are entries, each with its
  own substring count, every occurrence of the longer expression is counted again as an
  occurrence of the shorter one, and the total is at least twice the number of occurrences
  of the longer expression, hence at least 2.
\<close>

theorem double_count_of_nested_expression:
  assumes "content \<in> set chapters_content" and "0 < py_count content expr_bo_ran_da_nu"
  shows "(\<exists>cnt. dict_get (count_emotion_expressions chapters_content) (asc ''angry'') = Some cnt
            \<and> cnt = map (\<lambda>e. (e, py_count (py_join [10] chapters_content) e))
                       (filter (\<lambda>e. 0 < py_count (py_join [10] chapters_content) e)
                          (cfg_expressions angry_config))
            \<and> dict_get cnt expr_bo_ran_da_nu
                = Some (py_count (py_join [10] chapters_content) expr_bo_ran_da_nu)
            \<and> dict_get cnt expr_da_nu
                = Some (py_count (py_join [10] chapters_content) expr_da_nu)
            \<and> 0 < py_count (py_join [10] chapters_content) expr_bo_ran_da_nu
            \<and> py_count (py_join [10] chapters_content) expr_bo_ran_da_nu
                \<le> py_count (py_join [10] chapters_content) expr_da_nu
            \<and> 2 * py_count (py_join [10] chapters_content) expr_bo_ran_da_nu
                \<le> sum_list (map snd cnt)
            \<and> 2 \<le> sum_list (map snd cnt))
       \<and> (\<exists>st. dict_get (ca_emotion_stats (analyze_single_chapter jieba cid num content title))
                  (asc ''angry'') = Some st
            \<and> es_expressions st
                = map (\<lambda>e. (e, py_count content e))
                    (filter (\<lambda>e. 0 < py_count content e) (cfg_expressions angry_config))
            \<and> es_total st = sum_list (map snd (es_expressions st))
            \<and> (expr_bo_ran_da_nu, py_count content expr_bo_ran_da_nu) \<in> set (es_expressions st)
            \<and> (expr_da_nu, py_count content expr_da_nu) \<in> set (es_expressions st)
            \<and> py_count content expr_bo_ran_da_nu \<le> py_count content expr_da_nu
            \<and> 2 * py_count content expr_bo_ran_da_nu \<le> es_total st
            \<and> 2 \<le> es_total st)"
proof
  let ?full = "py_join [10] chapters_content"
  have "py_contains content expr_bo_ran_da_nu"
    using assms(2) by (simp add: py_count_pos_iff expr_bo_ran_da_nu_def)
  then have "py_contains ?full expr_bo_ran_da_nu"
    using py_contains_join [OF assms(1)] py_contains_trans by blast
  then have b: "0 < py_count ?full expr_bo_ran_da_nu"
    by (simp add: py_count_pos_iff expr_bo_ran_da_nu_def)
  have le: "py_count ?full expr_bo_ran_da_nu \<le> py_count ?full expr_da_nu"
    by (rule nested_count_le)
  have a: "0 < py_count ?full expr_da_nu" using b le by linarith
  obtain cnt where cnt: "dict_get (count_emotion_expressions chapters_content) (asc ''angry'') = Some cnt"
    using corpus_counter_exists by blast
  have ex: "cnt = map (\<lambda>e. (e, py_count ?full e))
                    (filter (\<lambda>e. 0 < py_count ?full e) (cfg_expressions angry_config))"
    by (rule corpus_counter_exact [OF cnt])
  have ga: "dict_get cnt expr_da_nu = Some (py_count ?full expr_da_nu)"
    using counter_of_corpus [OF angry_members(1) a cnt] .
  have gb: "dict_get cnt expr_bo_ran_da_nu = Some (py_count ?full expr_bo_ran_da_nu)"
    using counter_of_corpus [OF angry_members(2) b cnt] .
  have ma: "(expr_da_nu, py_count ?full expr_da_nu) \<in> set cnt"
    by (rule dict_get_mem [OF ga])
  have mb: "(expr_bo_ran_da_nu, py_count ?full expr_bo_ran_da_nu) \<in> set cnt"
    by (rule dict_get_mem [OF gb])
  have s: "py_count ?full expr_da_nu + py_count ?full expr_bo_ran_da_nu \<le> sum_list (map snd cnt)"
    by (rule sum_list_two_entries [OF ma mb da_nu_neq])
  have twice: "2 * py_count ?full expr_bo_ran_da_nu \<le> sum_list (map snd cnt)"
    using s le by linarith
  have two: "2 \<le> sum_list (map snd cnt)" using twice b by linarith
  show "\<exists>cnt. dict_get (count_emotion_expressions chapters_content) (asc ''angry'') = Some cnt
            \<and> cnt = map (\<lambda>e. (e, py_count (py_join [10] chapters_content) e))
                       (filter (\<lambda>e. 0 < py_count (py_join [10] chapters_content) e)
                          (cfg_expressions angry_config))
            \<and> dict_get cnt expr_bo_ran_da_nu
                = Some (py_count (py_join [10] chapters_content) expr_bo_ran_da_nu)
            \<and> dict_get cnt expr_da_nu
                = Some (py_count (py_join [10] chapters_content) expr_da_nu)
            \<and> 0 < py_count (py_join [10] chapters_content) expr_bo_ran_da_nu
            \<and> py_count (py_join [10] chapters_content) expr_bo_ran_da_nu
                \<le> py_count (py_join [10] chapters_content) expr_da_nu
            \<and> 2 * py_count (py_join [10] chapters_content) expr_bo_ran_da_nu
                \<le> sum_list (map snd cnt)
            \<and> 2 \<le> sum_list (map snd cnt)"
    by (intro exI [of _ cnt] conjI cnt ex gb ga b le twice two)
next
  let ?sc = "scan_expressions content (cfg_expressions angry_config)"
  let ?st = "\<lparr>es_total = fst ?sc, es_expressions = snd ?sc\<rparr>"
  have b: "0 < py_count content expr_bo_ran_da_nu" by (rule assms(2))
  have le: "py_count content expr_bo_ran_da_nu \<le> py_count content expr_da_nu"
    by (rule nested_count_le)
  have a: "0 < py_count content expr_da_nu" using b le by linarith
  have ma: "(expr_da_nu, py_count content expr_da_nu) \<in> set (es_expressions ?st)"
    using scan_found_member [OF angry_members(1) a] by simp
  have mb: "(expr_bo_ran_da_nu, py_count content expr_bo_ran_da_nu) \<in> set (es_expressions ?st)"
    using scan_found_member [OF angry_members(2) b] by simp
  have ex: "es_expressions ?st
              = map (\<lambda>e. (e, py_count content e))
                  (filter (\<lambda>e. 0 < py_count content e) (cfg_expressions angry_config))"
    by (simp add: scan_found_exact)
  have tot: "es_total ?st = sum_list (map snd (es_expressions ?st))"
    using scan_total_is_sum [of content "cfg_expressions angry_config"] by simp
  have "py_count content expr_da_nu + py_count content expr_bo_ran_da_nu
          \<le> sum_list (map snd (es_expressions ?st))"
    by (rule sum_list_two_entries [OF ma mb da_nu_neq])
  then have twice: "2 * py_count content expr_bo_ran_da_nu \<le> es_total ?st"
    using le tot by linarith
  have two: "2 \<le> es_total ?st" using twice b by linarith
  then have pos: "0 < fst ?sc" by simp
  have ne: "content \<noteq> []" using assms(2) by (auto simp: expr_bo_ran_da_nu_def)
  have get: "dict_get (ca_emotion_stats (analyze_single_chapter jieba cid num content title))
               (asc ''angry'') = Some ?st"
    using ne chapter_stats_angry [OF pos] by (simp add: analyze_single_chapter_def Let_def)
  show "\<exists>st. dict_get (ca_emotion_stats (analyze_single_chapter jieba cid num content title))
                  (asc ''angry'') = Some st
            \<and> es_expressions st
                = map (\<lambda>e. (e, py_count content e))
                    (filter (\<lambda>e. 0 < py_count content e) (cfg_expressions angry_config))
            \<and> es_total st = sum_list (map snd (es_expressions st))
            \<and> (expr_bo_ran_da_nu, py_count content expr_bo_ran_da_nu) \<in> set (es_expressions st)
            \<and> (expr_da_nu, py_count content expr_da_nu) \<in> set (es_expressions st)
            \<and> py_count content expr_bo_ran_da_nu \<le> py_count content expr_da_nu
            \<and> 2 * py_count content expr_bo_ran_da_nu \<le> es_total st
            \<and> 2 \<le> es_total st"
    by (intro exI [of _ ?st] conjI get ex tot mb ma le twice two)
qed

text \<open>
  An example text, \<^verbatim>\<open>"\u5979\u52c3\u7136\u5927\u6012"\<close>: one occurrence of \<^verbatim>\<open>"\u52c3\u7136\u5927\u6012"\<close> and no other match. Both
  expressions are counted once, in the order of the catalog, and the total is 2.
\<close>

definition example_angry_text :: pystr where
  "example_angry_text = [22905, 21187, 28982, 22823, 24594]"

theorem double_count_of_nested_expression_witness:
  "example_angry_text \<in> set [example_angry_text]
   \<and> 0 < py_count example_angry_text expr_bo_ran_da_nu
   \<and> dict_get (count_emotion_expressions [example_angry_text]) (asc ''angry'')
       = Some [(expr_da_nu, 1), (expr_bo_ran_da_nu, 1)]
   \<and> (\<exists>st. dict_get (ca_emotion_stats
               (analyze_single_chapter None (asc ''c1'') 1 example_angry_text (asc ''t'')))
             (asc ''angry'') = Some st
          \<and> es_expressions st = [(expr_da_nu, 1), (expr_bo_ran_da_nu, 1)]
          \<and> es_total st = 2)"
proof -
  have h1: "example_angry_text \<in> set [example_angry_text]" by simp
  have h2: "0 < py_count example_angry_text expr_bo_ran_da_nu" by code_simp
  have c1: "map (\<lambda>e. (e, py_count (py_join [10] [example_angry_text]) e))
              (filter (\<lambda>e. 0 < py_count (py_join [10] [example_angry_text]) e)
                 (cfg_expressions angry_config))
            = [(expr_da_nu, 1), (expr_bo_ran_da_nu, 1)]"
    by code_simp
  have c2: "map (\<lambda>e. (e, py_count example_angry_text e))
              (filter (\<lambda>e. 0 < py_count example_angry_text e) (cfg_expressions angry_config))
            = [(expr_da_nu, 1), (expr_bo_ran_da_nu, 1)]"
    by code_simp
  note t = double_count_of_nested_expression [OF h1 h2, of None "asc ''c1''" 1 "asc ''t''"]
  from t obtain cnt where
    g: "dict_get (count_emotion_expressions [example_angry_text]) (asc ''angry'') = Some cnt"
    and e: "cnt = map (\<lambda>e. (e, py_count (py_join [10] [example_angry_text]) e))
                    (filter (\<lambda>e. 0 < py_count (py_join [10] [example_angry_text]) e)
                       (cfg_expressions angry_config))"
    by blast
  from t obtain st where
    gs: "dict_get (ca_emotion_stats
             (analyze_single_chapter None (asc ''c1'') 1 example_angry_text (asc ''t'')))
           (asc ''angry'') = Some st"
    and es: "es_expressions st
               = map (\<lambda>e. (e, py_count example_angry_text e))
                   (filter (\<lambda>e. 0 < py_count example_angry_text e) (cfg_expressions angry_config))"
    and et: "es_total st = sum_list (map snd (es_expressions st))"
    by blast
  have g': "dict_get (count_emotion_expressions [example_angry_text]) (asc ''angry'')
              = Some [(expr_da_nu, 1), (expr_bo_ran_da_nu, 1)]"
    using g e c1 by simp
  have es': "es_expressions st = [(expr_da_nu, 1), (expr_bo_ran_da_nu, 1)]"
    using es c2 by simp
  have et': "es_total st = 2" using et es' by simp
  show ?thesis
    by (intro conjI exI [of _ st] h1 h2 g' gs es' et')
qed

section \<open>Floating-point arithmetic\<close>

text \<open>
  The scores divide and multiply Python \<^verbatim>\<open>float\<close>s, which are IEEE 754 binary64
  numbers. A float is modelled by the rational number it stands for, and every
  operation is the exact operation followed by \<open>fl\<close>, rounding to the nearest number
  with a 53-bit significand, ties to even. The exponent range is not modelled: the
  values here are quotients and products of list lengths and counts, far from overflow
  and underflow. \<open>bit_length n\<close> is Python's \<^verbatim>\<open>n.bit_length()\<close> for \<open>n \<ge> 0\<close>.
\<close>

function bit_length :: "int \<Rightarrow> nat" where
  "bit_length n = (if n \<le> 0 then 0 else Suc (bit_length (n div 2)))"
  by pat_completeness auto
termination
  by (relation "measure nat") auto

declare bit_length.simps [simp del]

definition floor_log2 :: "rat \<Rightarrow> int" where
  "floor_log2 x =
     (if 1 \<le> x then int (bit_length \<lfloor>x\<rfloor>) - 1
      else - int (bit_length (\<lceil>1 / x\<rceil> - 1)))"

definition pow2 :: "int \<Rightarrow> rat" where
  "pow2 e = (if 0 \<le> e then 2 ^ nat e else 1 / 2 ^ nat (- e))"

definition round_half_even :: "rat \<Rightarrow> int" where
  "round_half_even x =
     (let f = \<lfloor>x\<rfloor>; r = x - of_int f
      in if r < 1 / 2 then f
         else if 1 / 2 < r then f + 1
         else if even f then f else f + 1)"

definition fl :: "rat \<Rightarrow> rat" where
  "fl x =
     (if x = 0 then 0
      else let u = pow2 (floor_log2 \<bar>x\<bar> - 52)
           in of_int (round_half_even (x / u)) * u)"

text \<open>
  \<^verbatim>\<open>a / b\<close> on two integers is the correctly rounded quotient; \<^verbatim>\<open>x * y\<close> and
  \<^verbatim>\<open>x - y\<close> on floats round the exact result; a decimal literal such as \<^verbatim>\<open>0.7\<close> is
  the float nearest to it; \<^verbatim>\<open>int(x)\<close> truncates towards zero; \<^verbatim>\<open>round(x, 2)\<close> rounds
  the exact value of \<open>x\<close> to two decimals (ties to even) and returns the nearest float.
\<close>

definition fdiv :: "int \<Rightarrow> int \<Rightarrow> rat" where
  "fdiv a b = fl (of_int a / of_int b)"

definition fmul :: "rat \<Rightarrow> rat \<Rightarrow> rat" where
  "fmul x y = fl (x * y)"

definition fsub :: "rat \<Rightarrow> rat \<Rightarrow> rat" where
  "fsub x y = fl (x - y)"

definition py_int :: "rat \<Rightarrow> int" where
  "py_int x = (if 0 \<le> x then \<lfloor>x\<rfloor> else \<lceil>x\<rceil>)"

definition py_round2 :: "rat \<Rightarrow> rat" where
  "py_round2 x = fl (of_int (round_half_even (x * 100)) / 100)"

text \<open>\<^verbatim>\<open>str(n)\<close> for a natural number: its decimal digits.\<close>

function py_str_nat :: "nat \<Rightarrow> pystr" where
  "py_str_nat n =
     (if n < 10 then [48 + int n] else py_str_nat (n div 10) @ [48 + int (n mod 10)])"
  by pat_completeness auto
termination
  by (relation "measure id") auto

declare py_str_nat.simps [simp del]

definition py_str_int :: "int \<Rightarrow> pystr" where
  "py_str_int i = (if i < 0 then 45 # py_str_nat (nat (- i)) else py_str_nat (nat i))"

section \<open>Emotion diversity\<close>

text \<open>
  \<^verbatim>\<open>sorted(xs, key=f, reverse=True)\<close> is stable: descending by key, equal keys in their
  original order. \<^verbatim>\<open>Counter.most_common(n)\<close> is the first \<open>n\<close> items of the counter so
  sorted by count.
\<close>

definition sorted_desc :: "('a \<Rightarrow> 'k::linorder) \<Rightarrow> 'a list \<Rightarrow> 'a list" where
  "sorted_desc f xs = rev (sort_key f (rev xs))"

definition most_common :: "nat \<Rightarrow> ('a \<times> nat) list \<Rightarrow> ('a \<times> nat) list" where
  "most_common n cnt = take n (sorted_desc snd cnt)"

record emotion_info =
  ei_expressions :: "(pystr \<times> nat) list"
  ei_total_count :: nat
  ei_unique_count :: nat
  ei_concentration :: rat
  ei_top_expression :: "pystr option"
  ei_top_count :: nat

record emotion_diversity =
  ed_emotions :: "(pystr \<times> emotion_info) list"
  ed_diversity_score :: int
  ed_total_expressions :: nat
  ed_total_unique :: nat
  ed_most_concentrated_emotion :: "pystr option"
  ed_suggestion :: pystr

text \<open>
  \<^verbatim>\<open>analyze_emotion_diversity\<close> and \<^verbatim>\<open>aggregate_emotion_stats\<close> differ in how they fill
  the counters and then run the same statements on them; \<open>diversity_of_counts\<close> is that
  common part. \<open>category_info\<close> is the body of the first loop for a non-empty counter.
\<close>

definition category_info :: "counter \<Rightarrow> emotion_info" where
  "category_info cnt =
     (let expressions = most_common 10 cnt;
          total = sum_list (map snd cnt);
          unique = length cnt;
          top_expr = (case expressions of [] \<Rightarrow> (None, 0) | (e, c) # _ \<Rightarrow> (Some e, c));
          concentration = (if 0 < total then fdiv (int (snd top_expr)) (int total) else 0)
      in \<lparr>ei_expressions = expressions, ei_total_count = total, ei_unique_count = unique,
          ei_concentration = py_round2 concentration, ei_top_expression = fst top_expr,
          ei_top_count = snd top_expr\<rparr>)"

text \<open>
  The score. The source computes \<^verbatim>\<open>base_score = int(diversity_ratio * 200)\<close> and
  \<^verbatim>\<open>min(100, base_score + quantity_bonus)\<close>; its comment gives the base score the range
  0 to 70, and nothing in the code caps it there.
\<close>

definition emotion_base_score :: "nat \<Rightarrow> nat \<Rightarrow> int" where
  "emotion_base_score total_unique total_expressions =
     py_int (fmul (fdiv (int total_unique) (int total_expressions)) 200)"

definition emotion_score :: "nat \<Rightarrow> nat \<Rightarrow> int" where
  "emotion_score total_expressions total_unique =
     (if total_expressions = 0 then 50
      else if total_expressions < 10 then 60
      else let base_score = emotion_base_score total_unique total_expressions;
               quantity_bonus = min 30 (int total_unique * 3)
           in min 100 (base_score + quantity_bonus))"

text \<open>
  The names of the categories in the suggestion
  (\<^verbatim>\<open>emotion_names\<close>), and the pieces of its text:
  \<^verbatim>\<open>f"\u8868\u8fbe\u300c{name}\u300d\u65f6\uff0c{int(max_concentration * 100)}%\u4f7f\u7528\u300c{top_expr}\u300d\uff0c\u5efa\u8bae\u6269\u5c55\u60c5\u611f\u8868\u8fbe\u8bcd\u6c47"\<close>.
\<close>

definition emotion_names :: "(pystr \<times> pystr) list" where
  "emotion_names =
     [(asc ''happy'', [24320, 24515]), (asc ''sad'', [24754, 20260]),
      (asc ''angry'', [24868, 24594]), (asc ''fear'', [24656, 24807]),
      (asc ''surprise'', [24778, 35766])]"

definition emotion_suggestion :: "pystr \<Rightarrow> rat \<Rightarrow> pystr option \<Rightarrow> pystr" where
  "emotion_suggestion most_concentrated max_concentration top_expr =
     [34920, 36798, 12300]
     @ (case dict_get emotion_names most_concentrated of
          Some name \<Rightarrow> name | None \<Rightarrow> most_concentrated)
     @ [12301, 26102, 65292]
     @ py_str_int (py_int (fmul max_concentration 100))
     @ [37, 20351, 29992, 12300]
     @ (case top_expr of Some e \<Rightarrow> e | None \<Rightarrow> asc ''None'')
     @ [12301, 65292, 24314, 35758, 25193, 23637, 24773, 24863, 34920, 36798, 35789, 27719]"

definition diversity_of_counts :: "(pystr \<times> counter) list \<Rightarrow> emotion_diversity" where
  "diversity_of_counts emotion_counts =
     (let nonempty = filter (\<lambda>(emotion, cnt). cnt \<noteq> []) emotion_counts;
          result = map (\<lambda>(emotion, cnt). (emotion, category_info cnt)) nonempty;
          total_expressions = sum_list (map (\<lambda>(emotion, cnt). sum_list (map snd cnt)) nonempty);
          total_unique = sum_list (map (\<lambda>(emotion, cnt). length cnt) nonempty);
          diversity_score = emotion_score total_expressions total_unique;
          (most_concentrated, max_concentration) =
            foldl (\<lambda>(mc, mx) (emotion, data).
                     if mx < ei_concentration data \<and> 5 \<le> ei_total_count data
                     then (Some emotion, ei_concentration data) else (mc, mx))
                  (None, 0) result;
          suggestion =
            (case most_concentrated of
               None \<Rightarrow> []
             | Some mc \<Rightarrow>
                 if mc \<noteq> [] \<and> fl (7 / 10) < max_concentration
                 then emotion_suggestion mc max_concentration
                        (case dict_get result mc of
                           Some data \<Rightarrow> ei_top_expression data | None \<Rightarrow> None)
                 else [])
      in \<lparr>ed_emotions = result, ed_diversity_score = diversity_score,
          ed_total_expressions = total_expressions, ed_total_unique = total_unique,
          ed_most_concentrated_emotion = most_concentrated, ed_suggestion = suggestion\<rparr>)"

definition analyze_emotion_diversity :: "pystr list \<Rightarrow> emotion_diversity" where
  "analyze_emotion_diversity chapters_content =
     diversity_of_counts (count_emotion_expressions chapters_content)"

text \<open>
  \<^verbatim>\<open>aggregate_emotion_stats\<close> adds the cached counts of the chapters into one counter
  per category. \<^verbatim>\<open>emotion_counts[emotion]\<close> raises \<^verbatim>\<open>KeyError\<close> for a category that is not
  in the vocabulary; a \<^verbatim>\<open>Counter\<close> reads a missing expression as 0.
\<close>

datatype py_error = KeyError | UnicodeEncodeError | RecursionError

fun fold_err :: "('a \<Rightarrow> 's \<Rightarrow> py_error + 's) \<Rightarrow> 'a list \<Rightarrow> 's \<Rightarrow> py_error + 's" where
  "fold_err f [] s = Inr s"
| "fold_err f (x # xs) s = (case f x s of Inl e \<Rightarrow> Inl e | Inr s' \<Rightarrow> fold_err f xs s')"

definition counter_add :: "pystr \<Rightarrow> nat \<Rightarrow> counter \<Rightarrow> counter" where
  "counter_add expr n cnt =
     dict_set expr ((case dict_get cnt expr of None \<Rightarrow> 0 | Some c \<Rightarrow> c) + n) cnt"

definition add_category ::
  "pystr \<times> emotion_stat \<Rightarrow> (pystr \<times> counter) list \<Rightarrow> py_error + (pystr \<times> counter) list" where
  "add_category entry emotion_counts =
     fold_err (\<lambda>expr_data counts.
                 case dict_get counts (fst entry) of
                   None \<Rightarrow> Inl KeyError
                 | Some cnt \<Rightarrow>
                     Inr (dict_set (fst entry)
                            (counter_add (fst expr_data) (snd expr_data) cnt) counts))
              (es_expressions (snd entry)) emotion_counts"

definition aggregate_counts ::
  "chapter_analysis list \<Rightarrow> py_error + (pystr \<times> counter) list" where
  "aggregate_counts chapter_analyses =
     fold_err (\<lambda>ca counts. fold_err add_category (ca_emotion_stats ca) counts)
              chapter_analyses
              (map (\<lambda>(emotion, config). (emotion, [])) EMOTION_VOCABULARY)"

definition aggregate_emotion_stats :: "chapter_analysis list \<Rightarrow> py_error + emotion_diversity" where
  "aggregate_emotion_stats chapter_analyses =
     (case aggregate_counts chapter_analyses of
        Inl e \<Rightarrow> Inl e
      | Inr emotion_counts \<Rightarrow> Inr (diversity_of_counts emotion_counts))"

text \<open>
  The score as the specification words it, with rounding and a cap of 70 on the base
  score, for comparison with \<open>emotion_score\<close>.
\<close>

definition spec_emotion_score :: "nat \<Rightarrow> nat \<Rightarrow> int" where
  "spec_emotion_score total_count unique_count =
     (if total_count = 0 then 50
      else if total_count < 10 then 60
      else min 100 (min 70 (round (200 * (of_nat unique_count :: rat) / of_nat total_count))
                    + min 30 (3 * int unique_count)))"

text \<open>Total and unique counts of a family of counters.\<close>

definition total_occurrences :: "(pystr \<times> counter) list \<Rightarrow> nat" where
  "total_occurrences emotion_counts =
     sum_list (map (\<lambda>(emotion, cnt). sum_list (map snd cnt)) emotion_counts)"

definition unique_expressions :: "(pystr \<times> counter) list \<Rightarrow> nat" where
  "unique_expressions emotion_counts =
     sum_list (map (\<lambda>(emotion, cnt). length cnt) emotion_counts)"

section \<open>Properties of the emotion diversity score\<close>

lemma sum_nonempty_total:
  "sum_list (map (\<lambda>(emotion, cnt). sum_list (map snd cnt))
      (filter (\<lambda>(emotion, cnt). cnt \<noteq> []) (ec :: (pystr \<times> counter) list)))
   = total_occurrences ec"
  unfolding total_occurrences_def by (induction ec) auto

lemma sum_nonempty_unique:
  "sum_list (map (\<lambda>(emotion, cnt). length cnt)
      (filter (\<lambda>(emotion, cnt). cnt \<noteq> []) (ec :: (pystr \<times> counter) list)))
   = unique_expressions ec"
  unfolding unique_expressions_def by (induction ec) auto

lemma diversity_score_of_counts:
  "ed_diversity_score (diversity_of_counts ec)
     = emotion_score (total_occurrences ec) (unique_expressions ec)"
  unfolding diversity_of_counts_def Let_def
  by (simp add: sum_nonempty_total sum_nonempty_unique split: prod.splits)

lemma emotion_score_cases:
  "(t = 0 \<longrightarrow> emotion_score t u = 50)
   \<and> (0 < t \<and> t < 10 \<longrightarrow> emotion_score t u = 60)
   \<and> (10 \<le> t \<and> emotion_base_score u t \<le> 70 \<longrightarrow>
        emotion_score t u = min 100 (min 70 (emotion_base_score u t) + min 30 (3 * int u)))"
  by (auto simp: emotion_score_def Let_def min_def)

lemma dict_set_keys:
  "dict_get d k = Some v0 \<Longrightarrow> map fst (dict_set k v d) = map fst d"
  by (induction d) (auto simp: dict_get_def split: if_splits)

lemma dict_get_in_keys: "k \<in> set (map fst d) \<Longrightarrow> \<exists>v. dict_get d k = Some v"
  unfolding dict_get_def by (metis map_of_eq_None_iff not_Some_eq set_map)

lemma add_category_ok:
  assumes "fst entry \<in> set (map fst counts)"
  shows "\<exists>counts'. add_category entry counts = Inr counts' \<and> map fst counts' = map fst counts"
proof -
  have "\<And>counts. fst entry \<in> set (map fst counts) \<Longrightarrow>
      \<exists>counts'. fold_err (\<lambda>expr_data counts.
                 case dict_get counts (fst entry) of
                   None \<Rightarrow> Inl KeyError
                 | Some cnt \<Rightarrow>
                     Inr (dict_set (fst entry)
                            (counter_add (fst expr_data) (snd expr_data) cnt) counts))
              xs counts = Inr counts' \<and> map fst counts' = map fst counts" for xs
  proof (induction xs)
    case Nil
    then show ?case by simp
  next
    case (Cons x xs)
    obtain cnt where g: "dict_get counts (fst entry) = Some cnt"
      using dict_get_in_keys [OF Cons.prems] by blast
    let ?c1 = "dict_set (fst entry) (counter_add (fst x) (snd x) cnt) counts"
    have k: "map fst ?c1 = map fst counts" using dict_set_keys [OF g] .
    then have "fst entry \<in> set (map fst ?c1)" using Cons.prems by simp
    from Cons.IH [OF this] show ?case using g k by simp
  qed
  then show ?thesis unfolding add_category_def using assms by blast
qed

lemma fold_add_category_ok:
  "fst ` set stats \<subseteq> set (map fst counts) \<Longrightarrow>
   \<exists>counts'. fold_err add_category stats counts = Inr counts' \<and> map fst counts' = map fst counts"
proof (induction stats arbitrary: counts)
  case Nil
  then show ?case by simp
next
  case (Cons s stats)
  then have "fst s \<in> set (map fst counts)" by auto
  then obtain c1 where c1: "add_category s counts = Inr c1" "map fst c1 = map fst counts"
    using add_category_ok by blast
  then have "fst ` set stats \<subseteq> set (map fst c1)" using Cons.prems by auto
  from Cons.IH [OF this] show ?case using c1 by auto
qed

lemma aggregate_counts_ok:
  assumes "\<forall>ca \<in> set cas. fst ` set (ca_emotion_stats ca) \<subseteq> set (map fst EMOTION_VOCABULARY)"
  shows "\<exists>ec. aggregate_counts cas = Inr ec"
proof -
  have "\<And>counts. map fst counts = map fst EMOTION_VOCABULARY \<Longrightarrow>
      \<exists>ec. fold_err (\<lambda>ca counts. fold_err add_category (ca_emotion_stats ca) counts) cas counts
            = Inr ec \<and> map fst ec = map fst EMOTION_VOCABULARY"
    using assms
  proof (induction cas)
    case Nil
    then show ?case by simp
  next
    case (Cons ca cas)
    have "fst ` set (ca_emotion_stats ca) \<subseteq> set (map fst counts)"
      using Cons.prems by simp
    then obtain c1 where c1: "fold_err add_category (ca_emotion_stats ca) counts = Inr c1"
        "map fst c1 = map fst counts"
      using fold_add_category_ok by blast
    then have "map fst c1 = map fst EMOTION_VOCABULARY" using Cons.prems by simp
    from Cons.IH [OF this] Cons.prems(2) show ?case using c1 by auto
  qed
  moreover have "map fst (map (\<lambda>(emotion, config). (emotion, [] :: counter)) EMOTION_VOCABULARY)
      = map fst EMOTION_VOCABULARY" by (simp add: EMOTION_VOCABULARY_def)
  ultimately show ?thesis unfolding aggregate_counts_def by blast
qed

lemma dict_set_map_fst:
  "map fst (dict_set k v d) = (if k \<in> fst ` set d then map fst d else map fst d @ [k])"
  by (induction d) (auto simp: rev_image_eqI)

lemma dict_set_fst_subset: "fst ` set (dict_set k v d) \<subseteq> insert k (fst ` set d)"
proof -
  have "set (map fst (dict_set k v d)) \<subseteq> insert k (set (map fst d))"
    unfolding dict_set_map_fst by auto
  then show ?thesis by simp
qed

lemma foldl_dict_set_keys:
  "fst ` set (foldl (\<lambda>d x. if P x then dict_set (kf x) (vf x) d else d) d0 xs)
     \<subseteq> fst ` set d0 \<union> kf ` set xs"
proof (induction xs arbitrary: d0)
  case Nil
  then show ?case by simp
next
  case (Cons x xs)
  show ?case
  proof (cases "P x")
    case True
    have "fst ` set (foldl (\<lambda>d x. if P x then dict_set (kf x) (vf x) d else d)
             (dict_set (kf x) (vf x) d0) xs)
          \<subseteq> fst ` set (dict_set (kf x) (vf x) d0) \<union> kf ` set xs"
      by (rule Cons.IH)
    also have "\<dots> \<subseteq> insert (kf x) (fst ` set d0) \<union> kf ` set xs"
      using dict_set_fst_subset [of "kf x" "vf x" d0] by blast
    finally show ?thesis using True by auto
  next
    case False
    then show ?thesis using Cons.IH [of d0] by auto
  qed
qed

lemma chapter_emotion_stats_alt:
  "chapter_emotion_stats content
      = foldl (\<lambda>d x. if 0 < fst (scan_expressions content (cfg_expressions (snd x)))
                      then dict_set (fst x)
                             \<lparr>es_total = fst (scan_expressions content (cfg_expressions (snd x))),
                              es_expressions = snd (scan_expressions content (cfg_expressions (snd x)))\<rparr> d
                      else d) [] EMOTION_VOCABULARY"
  unfolding chapter_emotion_stats_def
  by (rule arg_cong [where f = "\<lambda>f. foldl f [] EMOTION_VOCABULARY"])
     (auto simp: fun_eq_iff Let_def split: prod.splits)

lemma chapter_emotion_stats_keys:
  "fst ` set (chapter_emotion_stats content) \<subseteq> set (map fst EMOTION_VOCABULARY)"
proof -
  have "fst ` set (chapter_emotion_stats content)
      \<subseteq> fst ` set ([] :: (pystr \<times> emotion_stat) list) \<union> fst ` set EMOTION_VOCABULARY"
    unfolding chapter_emotion_stats_alt by (rule foldl_dict_set_keys)
  then show ?thesis by simp
qed

lemma analyze_single_chapter_keys:
  "fst ` set (ca_emotion_stats (analyze_single_chapter jieba cid num content title))
     \<subseteq> set (map fst EMOTION_VOCABULARY)"
  using chapter_emotion_stats_keys [of content]
  by (simp add: analyze_single_chapter_def Let_def)

text \<open>
  The rule the code follows, as a predicate on the total count \<open>t\<close>, the unique count
  \<open>u\<close> and the score \<open>s\<close>: the base score is \<^verbatim>\<open>int(diversity_ratio * 200)\<close>, truncated and
  not rounded. The rule says nothing where that base score exceeds 70.
\<close>

definition truncated_score_rule :: "nat \<Rightarrow> nat \<Rightarrow> int \<Rightarrow> bool" where
  "truncated_score_rule t u s =
     ((t = 0 \<longrightarrow> s = 50)
      \<and> (0 < t \<and> t < 10 \<longrightarrow> s = 60)
      \<and> (10 \<le> t \<and> emotion_base_score u t \<le> 70 \<longrightarrow>
           s = min 100 (min 70 (emotion_base_score u t) + min 30 (3 * int u))))"

text \<open>
  Claim C1, as amended. For every corpus the score of \<^verbatim>\<open>analyze_emotion_diversity\<close>, and
  for all cached chapter statistics that aggregate without a \<^verbatim>\<open>KeyError\<close> the score of
  \<^verbatim>\<open>aggregate_emotion_stats\<close>, is 50 when the total count is 0, 60 when it is positive
  and below 10, and otherwise, when the truncated base score
  \<^verbatim>\<open>int(200 * unique / total)\<close> is at most 70, the minimum of 100 and that base score
  plus \<^verbatim>\<open>min(30, 3 * unique)\<close>.
\<close>

theorem emotion_diversity_score_truncated:
  "truncated_score_rule
     (total_occurrences (count_emotion_expressions chapters_content))
     (unique_expressions (count_emotion_expressions chapters_content))
     (ed_diversity_score (analyze_emotion_diversity chapters_content))
   \<and> (\<forall>ec. aggregate_counts chapter_analyses = Inr ec \<longrightarrow>
         (\<exists>r. aggregate_emotion_stats chapter_analyses = Inr r
              \<and> truncated_score_rule (total_occurrences ec) (unique_expressions ec)
                   (ed_diversity_score r)))"
proof -
  have rule: "truncated_score_rule (total_occurrences ec) (unique_expressions ec)
        (ed_diversity_score (diversity_of_counts ec))" for ec
    unfolding truncated_score_rule_def diversity_score_of_counts
    by (rule emotion_score_cases)
  show ?thesis
    using rule by (simp add: analyze_emotion_diversity_def aggregate_emotion_stats_def)
qed

text \<open>
  An example corpus: one chapter, twelve times \<^verbatim>\<open>"\u6012\u9053"\<close>, so one expression with
  twelve occurrences. The code scores it \<open>int(16.67) + 3 = 19\<close>.
\<close>

definition example_monotone_text :: pystr where
  "example_monotone_text =
     [24594, 36947, 24594, 36947, 24594, 36947, 24594, 36947, 24594, 36947, 24594, 36947, 24594, 36947, 24594, 36947, 24594, 36947, 24594, 36947, 24594, 36947, 24594, 36947]"

theorem emotion_diversity_score_truncated_witness:
  "total_occurrences (count_emotion_expressions [example_monotone_text]) = 12
   \<and> unique_expressions (count_emotion_expressions [example_monotone_text]) = 1
   \<and> emotion_base_score 1 12 = 16
   \<and> ed_diversity_score (analyze_emotion_diversity [example_monotone_text]) = 19
   \<and> (\<exists>ec r. aggregate_counts
                [analyze_single_chapter None (asc ''c1'') 1 example_monotone_text (asc ''t'')]
              = Inr ec
            \<and> total_occurrences ec = 12 \<and> unique_expressions ec = 1
            \<and> aggregate_emotion_stats
                [analyze_single_chapter None (asc ''c1'') 1 example_monotone_text (asc ''t'')]
              = Inr r
            \<and> ed_diversity_score r = 19)"
proof -
  let ?cas = "[analyze_single_chapter None (asc ''c1'') 1 example_monotone_text (asc ''t'')]"
  have t: "total_occurrences (count_emotion_expressions [example_monotone_text]) = 12"
    by code_simp
  have u: "unique_expressions (count_emotion_expressions [example_monotone_text]) = 1"
    by code_simp
  have b: "emotion_base_score 1 12 = 16" by code_simp
  obtain ec where ec: "aggregate_counts ?cas = Inr ec"
    using aggregate_counts_ok [of ?cas] analyze_single_chapter_keys by auto
  have ec_val: "aggregate_counts ?cas
      = Inr [(asc ''happy'', []), (asc ''sad'', []), (asc ''angry'', [([24594, 36947], 12)]),
             (asc ''fear'', []), (asc ''surprise'', [])]"
    by code_simp
  have ecv: "ec = [(asc ''happy'', []), (asc ''sad'', []), (asc ''angry'', [([24594, 36947], 12)]),
             (asc ''fear'', []), (asc ''surprise'', [])]"
    using ec ec_val by simp
  have t2: "total_occurrences ec = 12" and u2: "unique_expressions ec = 1"
    unfolding ecv by (simp_all add: total_occurrences_def unique_expressions_def)
  note th = emotion_diversity_score_truncated [of "[example_monotone_text]" ?cas]
  have s1: "ed_diversity_score (analyze_emotion_diversity [example_monotone_text]) = 19"
    using th t u b by (simp add: truncated_score_rule_def)
  obtain r where r: "aggregate_emotion_stats ?cas = Inr r"
      "truncated_score_rule (total_occurrences ec) (unique_expressions ec) (ed_diversity_score r)"
    using th ec by blast
  have s2: "ed_diversity_score r = 19"
    using r(2) t2 u2 b by (simp add: truncated_score_rule_def)
  show ?thesis using t u b s1 ec t2 u2 r(1) s2 by blast
qed

text \<open>
  Claim C1 as the specification states it, with \<open>round\<close> and the cap of 70, predicts 20
  for the example corpus, where the code returns 19.
\<close>

theorem emotion_diversity_score_counterexample:
  "total_occurrences (count_emotion_expressions [example_monotone_text]) = 12
   \<and> unique_expressions (count_emotion_expressions [example_monotone_text]) = 1
   \<and> ed_diversity_score (analyze_emotion_diversity [example_monotone_text]) = 19
   \<and> spec_emotion_score 12 1 = 20
   \<and> ed_diversity_score (analyze_emotion_diversity [example_monotone_text])
       \<noteq> spec_emotion_score
           (total_occurrences (count_emotion_expressions [example_monotone_text]))
           (unique_expressions (count_emotion_expressions [example_monotone_text]))"
proof -
  have t: "total_occurrences (count_emotion_expressions [example_monotone_text]) = 12"
    by code_simp
  have u: "unique_expressions (count_emotion_expressions [example_monotone_text]) = 1"
    by code_simp
  have s: "ed_diversity_score (analyze_emotion_diversity [example_monotone_text]) = 19"
    by code_simp
  have sp: "spec_emotion_score 12 1 = 20" by code_simp
  show ?thesis using t u s sp by simp
qed

text \<open>
  The base score is not capped: five expressions with two occurrences each give the
  base score 100 and the score 100, where a cap of 70 would give 85.
\<close>

lemma emotion_base_score_not_capped:
  "emotion_base_score 5 10 = 100 \<and> emotion_score 10 5 = 100 \<and> spec_emotion_score 10 5 = 85"
  by code_simp

section \<open>Narrative tagger and n-gram miner\<close>

text \<open>
  \<^verbatim>\<open>extract_sentence_type\<close>. The dialogue markers are \<^verbatim>\<open>'\u300c'\<close>, the double quote, the
  single quote and the full-width colon \<^verbatim>\<open>'\uff1a'\<close>. The tags are the one-letter strings
  \<^verbatim>\<open>D\<close>, \<^verbatim>\<open>T\<close>, \<^verbatim>\<open>E\<close>, \<^verbatim>\<open>A\<close>, \<^verbatim>\<open>N\<close>.
\<close>

definition extract_sentence_type :: "pystr \<Rightarrow> pystr" where
  "extract_sentence_type tmpl =
     (let has_dialogue = (\<exists>marker \<in> set [[12300], [34], [39], [65306]]. py_contains tmpl marker);
          has_action = (\<exists>tag \<in> set [tag_vision, tag_motion, tag_hand, tag_posture, tag_head].
                          py_contains tmpl tag);
          has_emotion = (py_contains tmpl tag_emotion
                         \<or> (\<exists>tag \<in> set [tag_face]. py_contains tmpl tag));
          has_speech = py_contains tmpl tag_speech;
          has_thought = py_contains tmpl tag_thought
      in if has_dialogue \<or> has_speech then asc ''D''
         else if has_thought then asc ''T''
         else if has_emotion then asc ''E''
         else if has_action then asc ''A''
         else asc ''N'')"

text \<open>
  \<^verbatim>\<open>d[k].append(v)\<close> on a \<^verbatim>\<open>defaultdict(list)\<close>: a new key goes to the end, which is
  the order in which \<^verbatim>\<open>d.items()\<close> yields the groups.
\<close>

fun dict_append :: "'k \<Rightarrow> 'v \<Rightarrow> ('k \<times> 'v list) list \<Rightarrow> ('k \<times> 'v list) list" where
  "dict_append k v [] = [(k, [v])]"
| "dict_append k v ((k', vs) # d) =
     (if k' = k then (k', vs @ [v]) # d else (k', vs) # dict_append k v d)"

definition group_by :: "('v \<Rightarrow> 'k) \<Rightarrow> 'v list \<Rightarrow> ('k \<times> 'v list) list" where
  "group_by f xs = foldl (\<lambda>d x. dict_append (f x) x d) [] xs"

record ngram =
  ng_pattern :: pystr
  ng_types :: "pystr list"
  ng_chapter_id :: pystr
  ng_chapter_number :: int
  ng_start_position :: nat
  ng_sentences :: "pystr list"

text \<open>
  The n-grams of one chapter: the inner part of the loop over \<^verbatim>\<open>chapters.items()\<close>, for
  the templates of the chapter sorted by position. \<^verbatim>\<open>'\u2192'.join\<close> joins the tags with
  U+2192. The group of a chapter is never empty.
\<close>

definition chapter_ngrams :: "nat \<Rightarrow> pystr \<times> item list \<Rightarrow> ngram list" where
  "chapter_ngrams n grp =
     (let cid = fst grp; chapter_templates = snd grp
      in if length chapter_templates < n then []
         else
           let types = map (\<lambda>t. extract_sentence_type (template t)) chapter_templates
           in map (\<lambda>i.
                     let ngram_types = take n (drop i types);
                         ngram_templates = take n (drop i chapter_templates)
                     in \<lparr>ng_pattern = py_join [8594] ngram_types,
                         ng_types = ngram_types,
                         ng_chapter_id = cid,
                         ng_chapter_number =
                           (case chapter_templates of [] \<Rightarrow> 0 | t0 # _ \<Rightarrow> chapter_number t0),
                         ng_start_position = i,
                         ng_sentences = map sent_text ngram_templates\<rparr>)
                  [0 ..< length types + 1 - n])"

definition extract_ngrams :: "item list \<Rightarrow> nat \<Rightarrow> ngram list" where
  "extract_ngrams templates n =
     (if length templates < n then []
      else
        let chapters = group_by chapter_id templates;
            chapters = map (\<lambda>(cid, ts). (cid, sort_key position ts)) chapters
        in concat (map (chapter_ngrams n) chapters))"

text \<open>
  \<^verbatim>\<open>Counter(iterable)\<close> counts the elements, keeping the order of first occurrence.
  \<^verbatim>\<open>s.split(sep)\<close> for a one-character separator.
\<close>

definition count_items :: "pystr list \<Rightarrow> counter" where
  "count_items xs = foldl (\<lambda>cnt x. counter_add x 1 cnt) [] xs"

fun py_split_char :: "int \<Rightarrow> pystr \<Rightarrow> pystr \<Rightarrow> pystr list" where
  "py_split_char sep cur [] = [cur]"
| "py_split_char sep cur (c # cs) =
     (if c = sep then cur # py_split_char sep [] cs else py_split_char sep (cur @ [c]) cs)"

text \<open>
  \<^verbatim>\<open>_describe_ngram_pattern\<close>: the tags replaced by their names
  (\<^verbatim>\<open>type_names\<close>) and joined with \<^verbatim>\<open>' \u2192 '\<close>.
\<close>

definition type_names :: "(pystr \<times> pystr) list" where
  "type_names =
     [(asc ''D'', [23545, 35805]), (asc ''T'', [24605, 32500]), (asc ''E'', [24773, 24863]),
      (asc ''A'', [21160, 20316]), (asc ''N'', [21465, 36848])]"

definition describe_ngram_pattern :: "pystr \<Rightarrow> pystr" where
  "describe_ngram_pattern pattern =
     (let parts = py_split_char 8594 [] pattern;
          descriptions = map (\<lambda>p. case dict_get type_names p of Some d \<Rightarrow> d | None \<Rightarrow> p) parts
      in py_join [32, 8594, 32] descriptions)"

record repetitive_pattern =
  rp_pattern :: pystr
  rp_count :: nat
  rp_description :: pystr
  rp_examples :: "(int \<times> pystr list) list"

record ngram_analysis =
  na_bigram_patterns :: "repetitive_pattern list"
  na_trigram_patterns :: "repetitive_pattern list"
  na_total_bigrams :: nat
  na_unique_bigrams :: nat
  na_diversity_score :: int

text \<open>
  The frequent patterns of a list of n-grams: of the ten most common patterns those
  that occur at least 3 times, each with its first three instances.
\<close>

definition repetitive_patterns :: "ngram list \<Rightarrow> repetitive_pattern list" where
  "repetitive_patterns ngrams =
     map (\<lambda>(pattern, count).
            \<lparr>rp_pattern = pattern, rp_count = count,
             rp_description = describe_ngram_pattern pattern,
             rp_examples =
               map (\<lambda>ex. (ng_chapter_number ex, ng_sentences ex))
                   (take 3 (filter (\<lambda>ng. ng_pattern ng = pattern) ngrams))\<rparr>)
         (filter (\<lambda>(pattern, count). 3 \<le> count)
                 (most_common 10 (count_items (map ng_pattern ngrams))))"

text \<open>
  \<^verbatim>\<open>analyze_ngram_patterns\<close>. The score is
  \<^verbatim>\<open>min(100, int(diversity_ratio * 200))\<close> when there is a bigram, else 100.
\<close>

definition analyze_ngram_patterns :: "item list \<Rightarrow> ngram_analysis" where
  "analyze_ngram_patterns templates =
     (let bigrams = extract_ngrams templates 2;
          trigrams = extract_ngrams templates 3;
          bigram_counter = count_items (map ng_pattern bigrams);
          total_bigrams = length bigrams;
          unique_bigrams = length bigram_counter;
          diversity_score =
            (if 0 < total_bigrams
             then min 100 (py_int (fmul (fdiv (int unique_bigrams) (int total_bigrams)) 200))
             else 100)
      in \<lparr>na_bigram_patterns = repetitive_patterns bigrams,
          na_trigram_patterns = repetitive_patterns trigrams,
          na_total_bigrams = total_bigrams,
          na_unique_bigrams = unique_bigrams,
          na_diversity_score = diversity_score\<rparr>)"

text \<open>The score as the specification words it, with rounding.\<close>

definition spec_ngram_diversity :: "nat \<Rightarrow> nat \<Rightarrow> int" where
  "spec_ngram_diversity unique_bigrams total_bigrams =
     (if 0 < total_bigrams
      then min 100 (round (200 * (of_nat unique_bigrams :: rat) / of_nat total_bigrams))
      else 100)"

section \<open>Properties of the n-gram miner\<close>

subsection \<open>Grouping by chapter\<close>

lemma dict_append_map_fst:
  "map fst (dict_append k v d) = (if k \<in> fst ` set d then map fst d else map fst d @ [k])"
  by (induction d) (auto simp: rev_image_eqI)

lemma dict_append_map_of:
  "map_of (dict_append k v d) k' =
     (if k' = k then Some ((case map_of d k of None \<Rightarrow> [] | Some vs \<Rightarrow> vs) @ [v])
      else map_of d k')"
  by (induction d) auto

lemma group_by_snoc: "group_by f (xs @ [x]) = dict_append (f x) x (group_by f xs)"
  by (simp add: group_by_def)

lemma group_by_keys_distinct: "distinct (map fst (group_by f xs))"
proof (induction xs rule: rev_induct)
  case Nil
  then show ?case by (simp add: group_by_def)
next
  case (snoc x xs)
  then show ?case by (auto simp: group_by_snoc dict_append_map_fst)
qed

lemma filter_key_absent: "k \<notin> f ` set xs \<Longrightarrow> filter (\<lambda>x. f x = k) xs = []"
  by (auto simp: filter_empty_conv)

lemma group_by_map_of:
  "map_of (group_by f xs) k =
     (if k \<in> f ` set xs then Some (filter (\<lambda>x. f x = k) xs) else None)"
proof (induction xs rule: rev_induct)
  case Nil
  then show ?case by (simp add: group_by_def)
next
  case (snoc x xs)
  show ?case
  proof (cases "k = f x")
    case True
    show ?thesis
    proof (cases "f x \<in> f ` set xs")
      case True
      then show ?thesis using snoc \<open>k = f x\<close>
        by (simp add: group_by_snoc dict_append_map_of)
    next
      case False
      then have "filter (\<lambda>y. f y = f x) xs = []" by (rule filter_key_absent)
      then show ?thesis using snoc \<open>k = f x\<close> False
        by (simp add: group_by_snoc dict_append_map_of)
    qed
  next
    case False
    then show ?thesis using snoc
      by (auto simp: group_by_snoc dict_append_map_of)
  qed
qed

lemma group_by_member:
  "(k, vs) \<in> set (group_by f xs) \<longleftrightarrow> k \<in> f ` set xs \<and> vs = filter (\<lambda>x. f x = k) xs"
proof -
  have "(k, vs) \<in> set (group_by f xs) \<longleftrightarrow> map_of (group_by f xs) k = Some vs"
    using group_by_keys_distinct [of f xs] by simp
  then show ?thesis by (auto simp: group_by_map_of)
qed

lemma filter_concat_by_key:
  assumes "distinct (map fst gs)"
    and "\<And>k v g. (k, v) \<in> set gs \<Longrightarrow> g \<in> set (F (k, v)) \<Longrightarrow> key g = k"
  shows "filter (\<lambda>g. key g = c) (concat (map F gs))
           = (case map_of gs c of None \<Rightarrow> [] | Some v \<Rightarrow> F (c, v))"
  using assms
proof (induction gs)
  case Nil
  then show ?case by simp
next
  case (Cons p gs)
  obtain k v where p: "p = (k, v)" by (cases p)
  have IH: "filter (\<lambda>g. key g = c) (concat (map F gs))
           = (case map_of gs c of None \<Rightarrow> [] | Some v \<Rightarrow> F (c, v))"
    using Cons by auto
  have keys: "\<And>g. g \<in> set (F (k, v)) \<Longrightarrow> key g = k" using Cons.prems(2) p by auto
  show ?case
  proof (cases "k = c")
    case True
    then have "map_of gs c = None" using Cons.prems(1) p
      by (simp add: map_of_eq_None_iff)
    moreover have "filter (\<lambda>g. key g = c) (F (k, v)) = F (k, v)"
      using keys True by (simp add: filter_id_conv)
    ultimately show ?thesis using IH p True by simp
  next
    case False
    then have "filter (\<lambda>g. key g = c) (F (k, v)) = []"
      using keys by (auto simp: filter_empty_conv)
    then show ?thesis using IH p False by simp
  qed
qed

lemma chapter_ngrams_key: "g \<in> set (chapter_ngrams n grp) \<Longrightarrow> ng_chapter_id g = fst grp"
  by (auto simp: chapter_ngrams_def Let_def split: if_splits)

lemma chapter_ngrams_length:
  "length (chapter_ngrams n grp) = (if length (snd grp) < n then 0 else length (snd grp) + 1 - n)"
  by (simp add: chapter_ngrams_def Let_def)

definition sorted_groups :: "item list \<Rightarrow> (pystr \<times> item list) list" where
  "sorted_groups ts = map (\<lambda>(cid, ts). (cid, sort_key position ts)) (group_by chapter_id ts)"

lemma sorted_groups_distinct: "distinct (map fst (sorted_groups ts))"
proof -
  have "map fst (sorted_groups ts) = map fst (group_by chapter_id ts)"
    by (simp add: sorted_groups_def case_prod_unfold comp_def)
  then show ?thesis by (simp add: group_by_keys_distinct)
qed

lemma sorted_groups_map_of:
  "map_of (sorted_groups ts) c =
     (if c \<in> chapter_id ` set ts
      then Some (sort_key position (filter (\<lambda>t. chapter_id t = c) ts)) else None)"
proof -
  have "map_of (sorted_groups ts) c = map_option (sort_key position) (map_of (group_by chapter_id ts) c)"
    unfolding sorted_groups_def by (simp add: map_of_map)
  then show ?thesis by (simp add: group_by_map_of)
qed

lemma extract_ngrams_alt:
  "extract_ngrams ts n =
     (if length ts < n then [] else concat (map (chapter_ngrams n) (sorted_groups ts)))"
  by (simp add: extract_ngrams_def sorted_groups_def Let_def)

lemma ngrams_of_chapter:
  "filter (\<lambda>g. ng_chapter_id g = c) (concat (map (chapter_ngrams n) (sorted_groups ts)))
     = (if c \<in> chapter_id ` set ts
        then chapter_ngrams n (c, sort_key position (filter (\<lambda>t. chapter_id t = c) ts))
        else [])"
proof -
  have "filter (\<lambda>g. ng_chapter_id g = c) (concat (map (chapter_ngrams n) (sorted_groups ts)))
      = (case map_of (sorted_groups ts) c of None \<Rightarrow> [] | Some v \<Rightarrow> chapter_ngrams n (c, v))"
    by (rule filter_concat_by_key [OF sorted_groups_distinct])
       (use chapter_ngrams_key in fastforce)
  then show ?thesis by (simp add: sorted_groups_map_of)
qed

lemma chapter_count_le: "length (filter (\<lambda>t. chapter_id t = c) ts) \<le> length (ts :: item list)"
  by (rule length_filter_le)

lemma ngram_count_per_chapter:
  assumes "0 < n"
  shows "length (filter (\<lambda>g. ng_chapter_id g = c) (extract_ngrams ts n))
       = length (filter (\<lambda>t. chapter_id t = c) ts) + 1 - n"
proof (cases "length ts < n")
  case True
  then have "length (filter (\<lambda>t. chapter_id t = c) ts) < n"
    using chapter_count_le [of c ts] by linarith
  then show ?thesis using True by (simp add: extract_ngrams_alt)
next
  case False
  show ?thesis
  proof (cases "c \<in> chapter_id ` set ts")
    case True
    then show ?thesis using False
      by (simp add: extract_ngrams_alt ngrams_of_chapter chapter_ngrams_length)
  next
    case False
    then have "filter (\<lambda>t. chapter_id t = c) ts = []"
      by (auto simp: filter_empty_conv)
    then show ?thesis using False \<open>\<not> length ts < n\<close> assms
      by (simp add: extract_ngrams_alt ngrams_of_chapter)
  qed
qed

lemma chapter_ngrams_member:
  assumes "g \<in> set (chapter_ngrams n (c, grp))"
  shows "\<exists>i. i + n \<le> length grp \<and> ng_start_position g = i
           \<and> ng_sentences g = map sent_text (take n (drop i grp))
           \<and> ng_types g = map (\<lambda>t. extract_sentence_type (template t)) (take n (drop i grp))"
proof -
  from assms have len: "\<not> length grp < n"
    by (auto simp: chapter_ngrams_def Let_def split: if_splits)
  from assms len obtain i where i: "i < length grp + 1 - n"
    and g: "g = \<lparr>ng_pattern = py_join [8594]
                  (take n (drop i (map (\<lambda>t. extract_sentence_type (template t)) grp))),
                ng_types = take n (drop i (map (\<lambda>t. extract_sentence_type (template t)) grp)),
                ng_chapter_id = c,
                ng_chapter_number = (case grp of [] \<Rightarrow> 0 | t0 # _ \<Rightarrow> chapter_number t0),
                ng_start_position = i,
                ng_sentences = map sent_text (take n (drop i grp))\<rparr>"
    by (auto simp: chapter_ngrams_def Let_def)
  have "i + n \<le> length grp" using i len by linarith
  moreover have "ng_start_position g = i" by (simp add: g)
  moreover have "ng_sentences g = map sent_text (take n (drop i grp))" by (simp add: g)
  moreover have "ng_types g = map (\<lambda>t. extract_sentence_type (template t)) (take n (drop i grp))"
    by (simp add: g take_map drop_map)
  ultimately show ?thesis by blast
qed

lemma ngram_members:
  assumes "g \<in> set (extract_ngrams ts n)"
  shows "\<exists>i. i + n \<le> length (filter (\<lambda>t. chapter_id t = ng_chapter_id g) ts)
           \<and> ng_start_position g = i
           \<and> ng_sentences g = map sent_text (take n (drop i
                 (sort_key position (filter (\<lambda>t. chapter_id t = ng_chapter_id g) ts))))"
proof -
  have nl: "\<not> length ts < n" and g: "g \<in> set (concat (map (chapter_ngrams n) (sorted_groups ts)))"
    using assms by (auto simp: extract_ngrams_alt split: if_splits)
  then have "g \<in> set (filter (\<lambda>h. ng_chapter_id h = ng_chapter_id g)
                 (concat (map (chapter_ngrams n) (sorted_groups ts))))"
    by simp
  then have mem: "g \<in> set (chapter_ngrams n (ng_chapter_id g,
        sort_key position (filter (\<lambda>t. chapter_id t = ng_chapter_id g) ts)))"
    unfolding ngrams_of_chapter by (simp split: if_splits)
  from chapter_ngrams_member [OF mem] show ?thesis by auto
qed

lemma count_items_snoc: "count_items (xs @ [x]) = counter_add x 1 (count_items xs)"
  by (simp add: count_items_def)

lemma count_items_keys:
  "distinct (map fst (count_items xs)) \<and> set (map fst (count_items xs)) = set xs"
proof (induction xs rule: rev_induct)
  case Nil
  then show ?case by (simp add: count_items_def)
next
  case (snoc x xs)
  have "map fst (count_items (xs @ [x]))
      = (if x \<in> fst ` set (count_items xs) then map fst (count_items xs)
         else map fst (count_items xs) @ [x])"
    by (simp add: count_items_snoc counter_add_def dict_set_map_fst)
  then show ?case using snoc by (auto split: if_splits)
qed

lemma count_items_length: "length (count_items xs) = card (set xs)"
proof -
  have d: "distinct (map fst (count_items xs))"
    and s: "set (map fst (count_items xs)) = set xs"
    using count_items_keys [of xs] by blast+
  have "card (set (map fst (count_items xs))) = length (map fst (count_items xs))"
    using d by (rule distinct_card)
  then show ?thesis unfolding s by simp
qed

subsection \<open>Example template lists\<close>

text \<open>
  An item as the aggregation builds it from a sentence, with the template of the
  fallback abstractor. The sentence \<^verbatim>\<open>"\u5929\u6c14\u5f88\u597d\u5462"\<close> has a narrative template
  (tag \<^verbatim>\<open>N\<close>).
\<close>

definition example_item :: "pystr \<Rightarrow> int \<Rightarrow> nat \<Rightarrow> pystr \<Rightarrow> item" where
  "example_item cid num pos txt =
     \<lparr>sent_text = txt, template = extract_template_simple_impl txt, position = pos,
      is_opening = opening_flag pos, is_ending = False,
      chapter_id = cid, chapter_number = num, chapter_title = []\<rparr>"

definition example_flat_items :: "item list" where
  "example_flat_items =
     map (\<lambda>pos. example_item (asc ''c1'') 1 pos [22825, 27668, 24456, 22909, 21602]) [0, 1, 2, 3]"

definition example_two_chapters :: "item list" where
  "example_two_chapters =
     [example_item (asc ''c1'') 1 0 [22825, 27668, 24456, 22909, 21602],
      example_item (asc ''c2'') 2 0 [20182, 36208, 36827, 20102, 25151, 38388],
      example_item (asc ''c1'') 1 2 [22905, 21187, 28982, 22823, 24594],
      example_item (asc ''c1'') 1 1 [8220, 20320, 25105, 20043, 38388, 30340, 20107, 24773]]"

subsection \<open>The claims\<close>

text \<open>
  Claim C2, as amended. For every template list the narrative diversity score of
  \<^verbatim>\<open>analyze_ngram_patterns\<close> is \<^verbatim>\<open>min(100, int(200 * unique / total))\<close>, the
  double-precision product truncated and not rounded, when at least one bigram exists,
  and 100 when there is none; \<open>total\<close> is the number of bigrams and \<open>unique\<close> the number of
  distinct bigram patterns.
\<close>

theorem ngram_diversity_truncated:
  "na_diversity_score (analyze_ngram_patterns ts)
     = (if 0 < length (extract_ngrams ts 2)
        then min 100 (py_int (fmul (fdiv (int (card (ng_pattern ` set (extract_ngrams ts 2))))
                                         (int (length (extract_ngrams ts 2)))) 200))
        else 100)"
  by (simp add: analyze_ngram_patterns_def Let_def count_items_length)

theorem ngram_diversity_truncated_witness:
  "length (extract_ngrams example_flat_items 2) = 3
   \<and> card (ng_pattern ` set (extract_ngrams example_flat_items 2)) = 1
   \<and> na_diversity_score (analyze_ngram_patterns example_flat_items) = 66
   \<and> na_diversity_score (analyze_ngram_patterns []) = 100"
proof -
  have l: "length (extract_ngrams example_flat_items 2) = 3" by code_simp
  have c: "card (ng_pattern ` set (extract_ngrams example_flat_items 2)) = 1" by code_simp
  have b: "py_int (fmul (fdiv 1 3) 200) = 66" by code_simp
  have e: "extract_ngrams [] 2 = []" by (simp add: extract_ngrams_def)
  have s: "na_diversity_score (analyze_ngram_patterns example_flat_items) = 66"
    using ngram_diversity_truncated [of example_flat_items] by (simp add: l c b)
  have s0: "na_diversity_score (analyze_ngram_patterns []) = 100"
    using ngram_diversity_truncated [of "[]"] by (simp add: e)
  show ?thesis using l c s s0 by simp
qed

text \<open>
  Claim C2 as the specification states it, with \<open>round\<close>: four narrative sentences in
  one chapter give three bigrams of one pattern, for which the claim predicts
  \<open>round(66.67) = 67\<close> and the code returns 66.
\<close>

theorem ngram_diversity_counterexample:
  "length (extract_ngrams example_flat_items 2) = 3
   \<and> card (ng_pattern ` set (extract_ngrams example_flat_items 2)) = 1
   \<and> na_diversity_score (analyze_ngram_patterns example_flat_items) = 66
   \<and> spec_ngram_diversity 1 3 = 67
   \<and> na_diversity_score (analyze_ngram_patterns example_flat_items)
       \<noteq> spec_ngram_diversity (card (ng_pattern ` set (extract_ngrams example_flat_items 2)))
           (length (extract_ngrams example_flat_items 2))"
proof -
  have l: "length (extract_ngrams example_flat_items 2) = 3" by code_simp
  have c: "card (ng_pattern ` set (extract_ngrams example_flat_items 2)) = 1" by code_simp
  have s: "na_diversity_score (analyze_ngram_patterns example_flat_items) = 66" by code_simp
  have sp: "spec_ngram_diversity 1 3 = 67" by code_simp
  show ?thesis using l c s sp by simp
qed

text \<open>
  Claim C3. For every template list and every chapter, \<^verbatim>\<open>extract_ngrams\<close> yields
  \<open>max(0, k - 1)\<close> bigrams and \<open>max(0, k - 2)\<close> trigrams for the chapter, \<open>k\<close> being the
  number of its templates; and the sentences of every n-gram are those of \<open>n\<close>
  consecutive templates, in the order of position, of the one chapter the n-gram names.
\<close>

theorem ngram_counts_and_chapter_boundary:
  "int (length (filter (\<lambda>g. ng_chapter_id g = c) (extract_ngrams ts 2)))
     = max 0 (int (length (filter (\<lambda>t. chapter_id t = c) ts)) - 1)
   \<and> int (length (filter (\<lambda>g. ng_chapter_id g = c) (extract_ngrams ts 3)))
     = max 0 (int (length (filter (\<lambda>t. chapter_id t = c) ts)) - 2)
   \<and> (\<forall>n \<in> {2, 3}. \<forall>g \<in> set (extract_ngrams ts n).
         \<exists>members. length members = n
           \<and> (\<forall>t \<in> set members. t \<in> set ts \<and> chapter_id t = ng_chapter_id g)
           \<and> ng_sentences g = map sent_text members
           \<and> members = take n (drop (ng_start_position g)
                 (sort_key position (filter (\<lambda>t. chapter_id t = ng_chapter_id g) ts))))"
proof (intro conjI ballI)
  show "int (length (filter (\<lambda>g. ng_chapter_id g = c) (extract_ngrams ts 2)))
     = max 0 (int (length (filter (\<lambda>t. chapter_id t = c) ts)) - 1)"
    using ngram_count_per_chapter [of 2 c ts] by auto
  show "int (length (filter (\<lambda>g. ng_chapter_id g = c) (extract_ngrams ts 3)))
     = max 0 (int (length (filter (\<lambda>t. chapter_id t = c) ts)) - 2)"
    using ngram_count_per_chapter [of 3 c ts] by auto
next
  fix n :: nat and g
  assume "n \<in> {2, 3}" and g: "g \<in> set (extract_ngrams ts n)"
  let ?grp = "sort_key position (filter (\<lambda>t. chapter_id t = ng_chapter_id g) ts)"
  let ?members = "take n (drop (ng_start_position g) ?grp)"
  from ngram_members [OF g] have i: "ng_start_position g + n \<le> length ?grp"
    and s: "ng_sentences g = map sent_text ?members"
    by auto
  have len: "length ?members = n" using i by simp
  have "set ?members \<subseteq> set ?grp"
    by (meson order_trans set_drop_subset set_take_subset)
  then have mem: "\<forall>t \<in> set ?members. t \<in> set ts \<and> chapter_id t = ng_chapter_id g"
    by auto
  show "\<exists>members. length members = n
           \<and> (\<forall>t \<in> set members. t \<in> set ts \<and> chapter_id t = ng_chapter_id g)
           \<and> ng_sentences g = map sent_text members
           \<and> members = take n (drop (ng_start_position g) ?grp)"
    using len mem s by blast
qed

theorem ngram_counts_and_chapter_boundary_witness:
  "length (filter (\<lambda>t. chapter_id t = asc ''c1'') example_two_chapters) = 3
   \<and> length (filter (\<lambda>t. chapter_id t = asc ''c2'') example_two_chapters) = 1
   \<and> int (length (filter (\<lambda>g. ng_chapter_id g = asc ''c1'') (extract_ngrams example_two_chapters 2))) = 2
   \<and> int (length (filter (\<lambda>g. ng_chapter_id g = asc ''c1'') (extract_ngrams example_two_chapters 3))) = 1
   \<and> int (length (filter (\<lambda>g. ng_chapter_id g = asc ''c2'') (extract_ngrams example_two_chapters 2))) = 0
   \<and> length (extract_ngrams example_two_chapters 2) = 2
   \<and> list_all (\<lambda>g. \<exists>members. length members = 2
           \<and> list_all (\<lambda>t. t \<in> set example_two_chapters \<and> chapter_id t = ng_chapter_id g) members
           \<and> ng_sentences g = map sent_text members)
        (extract_ngrams example_two_chapters 2)"
proof -
  have k1: "length (filter (\<lambda>t. chapter_id t = asc ''c1'') example_two_chapters) = 3"
    by code_simp
  have k2: "length (filter (\<lambda>t. chapter_id t = asc ''c2'') example_two_chapters) = 1"
    by code_simp
  have n: "length (extract_ngrams example_two_chapters 2) = 2" by code_simp
  note th1 = ngram_counts_and_chapter_boundary [of "asc ''c1''" example_two_chapters]
  note th2 = ngram_counts_and_chapter_boundary [of "asc ''c2''" example_two_chapters]
  have b1: "int (length (filter (\<lambda>g. ng_chapter_id g = asc ''c1'')
      (extract_ngrams example_two_chapters 2))) = 2"
    using th1 k1 by simp
  have t1: "int (length (filter (\<lambda>g. ng_chapter_id g = asc ''c1'')
      (extract_ngrams example_two_chapters 3))) = 1"
    using th1 k1 by simp
  have b2: "int (length (filter (\<lambda>g. ng_chapter_id g = asc ''c2'')
      (extract_ngrams example_two_chapters 2))) = 0"
    using th2 k2 by simp
  have "\<forall>g \<in> set (extract_ngrams example_two_chapters 2).
         \<exists>members. length members = 2
           \<and> (\<forall>t \<in> set members. t \<in> set example_two_chapters \<and> chapter_id t = ng_chapter_id g)
           \<and> ng_sentences g = map sent_text members"
    using th1 by blast
  then have m: "list_all (\<lambda>g. \<exists>members. length members = 2
           \<and> list_all (\<lambda>t. t \<in> set example_two_chapters \<and> chapter_id t = ng_chapter_id g) members
           \<and> ng_sentences g = map sent_text members)
        (extract_ngrams example_two_chapters 2)"
    by (simp add: list_all_iff)
  show ?thesis using k1 k2 b1 t1 b2 n m by blast
qed

section \<open>Properties of the template abstractor\<close>

text \<open>
  Two equal neighbours in a list of template tokens, the token being a placeholder (it
  starts with \<^verbatim>\<open>[\<close>).
\<close>

fun adjacent_duplicate :: "pystr list \<Rightarrow> bool" where
  "adjacent_duplicate (a # b # rest) =
     ((a = b \<and> py_startswith a (asc ''['')) \<or> adjacent_duplicate (b # rest))"
| "adjacent_duplicate _ = False"

text \<open>
  The tagger-backed strategy merges every run of equal placeholders, whatever the
  tagger returns.
\<close>

lemma merge_placeholders_head:
  "py_startswith x (asc ''['') \<Longrightarrow> merge_placeholders (Some x) items = y # ys \<Longrightarrow> y \<noteq> x"
  by (induction items) (auto split: if_splits)

lemma merge_placeholders_no_adjacent:
  "\<not> adjacent_duplicate (merge_placeholders prev items)"
proof (induction items arbitrary: prev)
  case Nil
  then show ?case by simp
next
  case (Cons item items)
  show ?case
  proof (cases "py_startswith item (asc ''['') \<and> Some item = prev")
    case True
    then show ?thesis using Cons.IH [of prev] by simp
  next
    case False
    have eq: "merge_placeholders prev (item # items) = item # merge_placeholders (Some item) items"
      by (simp add: False)
    show ?thesis
    proof (cases "merge_placeholders (Some item) items")
      case Nil
      then show ?thesis unfolding eq by simp
    next
      case (Cons y ys)
      have "\<not> (item = y \<and> py_startswith item (asc ''[''))"
        using merge_placeholders_head [of item items y ys] Cons by blast
      moreover have "\<not> adjacent_duplicate (y # ys)"
        using Cons.IH [of "Some item"] Cons by simp
      ultimately show ?thesis unfolding eq Cons by simp
    qed
  qed
qed

text \<open>
  The fallback strategy merges the noun placeholder: its token list never has two noun
  placeholders side by side.
\<close>

definition noun_repeated :: "pystr list \<Rightarrow> bool" where
  "noun_repeated r = ((ph_noun, ph_noun) \<in> set (zip r (tl r)))"

lemma zip_tl_snoc: "r \<noteq> [] \<Longrightarrow> zip (r @ [x]) (tl r @ [x]) = zip r (tl r) @ [(last r, x)]"
proof (induction r)
  case Nil
  then show ?case by simp
next
  case (Cons a r)
  then show ?case by (cases r) auto
qed

lemma noun_repeated_snoc:
  "noun_repeated (r @ [x]) \<longleftrightarrow> noun_repeated r \<or> (r \<noteq> [] \<and> last r = ph_noun \<and> x = ph_noun)"
proof (cases "r = []")
  case True
  then show ?thesis by (simp add: noun_repeated_def)
next
  case False
  then show ?thesis by (auto simp: noun_repeated_def zip_tl_snoc)
qed

lemma simple_char_no_repeat:
  "\<not> noun_repeated result \<Longrightarrow> \<not> noun_repeated (simple_char char result)"
  by (auto simp: simple_char_def noun_repeated_snoc ph_noun_def ph_pronoun_def)

lemma simple_scan_no_repeat:
  "\<not> noun_repeated result \<Longrightarrow> \<not> noun_repeated (simple_scan s result)"
proof (induction s result rule: simple_scan.induct)
  case (1 result)
  then show ?case by simp
next
  case (2 char result)
  then show ?case by (simp add: simple_char_no_repeat)
next
  case (3 char c2 rest result)
  have a: "\<not> noun_repeated (result @ [[char, c2]])"
    using "3.prems" by (simp add: noun_repeated_snoc ph_noun_def)
  have b: "\<not> noun_repeated (result @ [ph_pronoun])"
    using "3.prems" by (simp add: noun_repeated_snoc ph_noun_def ph_pronoun_def)
  have c: "\<not> noun_repeated (simple_char char result)"
    using "3.prems" by (rule simple_char_no_repeat)
  show ?case using 3 a b c by (simp add: Let_def)
qed

lemma fallback_merges_nouns: "\<not> noun_repeated (simple_scan sentence [])"
  by (rule simple_scan_no_repeat) (simp add: noun_repeated_def)

text \<open>
  Claim C4 fails for the fallback strategy, which appends the pronoun placeholder without
  looking at the token before it: the two pronouns \<^verbatim>\<open>"\u4f60\u6211"\<close> (U+4F60, U+6211)
  give the template \<^verbatim>\<open>"[\u4ee3\u8bcd][\u4ee3\u8bcd]"\<close>. This is the code at that input.
\<close>

theorem fallback_repeats_pronoun_placeholder:
  "extract_template_simple_impl [20320, 25105] = ph_pronoun @ ph_pronoun
   \<and> simple_scan [20320, 25105] [] = [ph_pronoun, ph_pronoun]
   \<and> adjacent_duplicate (simple_scan [20320, 25105] [])
   \<and> py_contains (extract_template_cached None [20320, 25105]) (ph_pronoun @ ph_pronoun)"
  by code_simp

section \<open>Clusterer\<close>

text \<open>
  \<^verbatim>\<open>template_similarity\<close>: 1 for equal templates, 0 when one is empty or the lengths
  differ by more than half of the longer, else one minus the edit distance over the
  longer length. The edit distance is computed row by row; \<open>lev_cell\<close> is the body of the
  inner loop (it appends one cell to \<^verbatim>\<open>curr_row\<close>), \<open>lev_row\<close> the body of the outer loop.
  The rows have one more element than \<open>t2\<close>, so every index read is in range.
\<close>

definition lev_cell :: "int \<Rightarrow> nat list \<Rightarrow> nat list \<Rightarrow> nat \<times> int \<Rightarrow> nat list" where
  "lev_cell c1 prev_row curr_row jc =
     (let j = fst jc; c2 = snd jc;
          insertions = prev_row ! (j + 1) + 1;
          deletions = curr_row ! j + 1;
          substitutions = prev_row ! j + (if c1 = c2 then 0 else 1)
      in curr_row @ [min insertions (min deletions substitutions)])"

definition lev_row :: "pystr \<Rightarrow> nat list \<Rightarrow> nat \<times> int \<Rightarrow> nat list" where
  "lev_row t2 prev_row ic =
     foldl (lev_cell (snd ic) prev_row) [fst ic + 1] (List.enumerate 0 t2)"

definition edit_distance :: "pystr \<Rightarrow> pystr \<Rightarrow> nat" where
  "edit_distance t1 t2 =
     last (foldl (lev_row t2) [0 ..< length t2 + 1] (List.enumerate 0 t1))"

definition template_similarity :: "pystr \<Rightarrow> pystr \<Rightarrow> rat" where
  "template_similarity t1 t2 =
     (if t1 = t2 then 1
      else
        let len1 = length t1; len2 = length t2
        in if len1 = 0 \<or> len2 = 0 then 0
           else if fmul (of_nat (max len1 len2)) (fl (1 / 2)) < of_int \<bar>int len1 - int len2\<bar>
           then 0
           else
             let shorter = (if len2 < len1 then t2 else t1);
                 longer = (if len2 < len1 then t1 else t2);
                 distance = edit_distance shorter longer;
                 max_len = max len1 len2
             in fsub 1 (fdiv (int distance) (int max_len)))"

text \<open>
  The union-find of \<^verbatim>\<open>_merge_similar_clusters\<close> on the list \<^verbatim>\<open>merged_into\<close>. \<^verbatim>\<open>find\<close> is
  recursive and compresses the path; on a list with a cycle it would not return, so it
  is a partial function: \<open>None\<close> is a call that returns no value. It returns the root
  and the list as the call leaves it.
\<close>

partial_function (option) uf_find :: "nat list \<Rightarrow> nat \<Rightarrow> (nat \<times> nat list) option" where
  "uf_find merged_into x =
     (if x < length merged_into
      then (if merged_into ! x \<noteq> x
            then Option.bind (uf_find merged_into (merged_into ! x))
                   (\<lambda>(r, m). Some (r, m[x := r]))
            else Some (x, merged_into))
      else None)"

declare uf_find.simps [code]

definition uf_union :: "nat list \<Rightarrow> nat \<Rightarrow> nat \<Rightarrow> nat list option" where
  "uf_union merged_into x y =
     Option.bind (uf_find merged_into x) (\<lambda>(rx, m1).
       Option.bind (uf_find m1 y) (\<lambda>(ry, m2).
         Some (if rx \<noteq> ry then m2[rx := ry] else m2)))"

fun fold_opt :: "('a \<Rightarrow> 's \<Rightarrow> 's option) \<Rightarrow> 'a list \<Rightarrow> 's \<Rightarrow> 's option" where
  "fold_opt f [] s = Some s"
| "fold_opt f (x # xs) s = (case f x s of None \<Rightarrow> None | Some s' \<Rightarrow> fold_opt f xs s')"

record cluster =
  cl_representative :: pystr
  cl_items :: "item list"

text \<open>
  The pairs \<^verbatim>\<open>(i, j)\<close> with \<^verbatim>\<open>i < j\<close> in the order of the two nested loops, and the test
  that makes the loop body call \<^verbatim>\<open>union(i, j)\<close>: the lengths differ by at most
  \<^verbatim>\<open>0.4\<close> of the longer and the similarity reaches the threshold.
\<close>

definition cluster_pairs :: "nat \<Rightarrow> (nat \<times> nat) list" where
  "cluster_pairs n = concat (map (\<lambda>i. map (\<lambda>j. (i, j)) [i + 1 ..< n]) [0 ..< n])"

definition similar_representatives :: "rat \<Rightarrow> pystr \<Rightarrow> pystr \<Rightarrow> bool" where
  "similar_representatives threshold rep_i rep_j =
     (if fmul (of_nat (max (length rep_i) (length rep_j))) (fl (4 / 10))
           < of_int \<bar>int (length rep_i) - int (length rep_j)\<bar>
      then False
      else threshold \<le> template_similarity rep_i rep_j)"

definition merge_pairs :: "cluster list \<Rightarrow> rat \<Rightarrow> nat list \<Rightarrow> nat list option" where
  "merge_pairs clusters threshold merged_into =
     fold_opt (\<lambda>ij m.
                 if similar_representatives threshold
                      (cl_representative (clusters ! fst ij))
                      (cl_representative (clusters ! snd ij))
                 then uf_union m (fst ij) (snd ij) else Some m)
              (cluster_pairs (length clusters)) merged_into"

text \<open>
  The last loop: \<^verbatim>\<open>merged_clusters\<close> is a \<^verbatim>\<open>defaultdict\<close> keyed by the root, in the order
  in which the roots are first met; the first cluster of a root gives the
  representative, and every cluster appends its items.
\<close>

definition add_to_root :: "nat \<Rightarrow> cluster \<Rightarrow> (nat \<times> cluster) list \<Rightarrow> (nat \<times> cluster) list" where
  "add_to_root r c merged_clusters =
     (let entry = (case dict_get merged_clusters r of
                     None \<Rightarrow> \<lparr>cl_representative = [], cl_items = []\<rparr>
                   | Some e \<Rightarrow> e);
          entry = (if cl_representative entry = []
                   then entry\<lparr>cl_representative := cl_representative c\<rparr> else entry)
      in dict_set r (entry\<lparr>cl_items := cl_items entry @ cl_items c\<rparr>) merged_clusters)"

definition collect_step ::
  "nat \<times> cluster \<Rightarrow> nat list \<times> (nat \<times> cluster) list
     \<Rightarrow> (nat list \<times> (nat \<times> cluster) list) option" where
  "collect_step ic st =
     Option.bind (uf_find (fst st) (fst ic))
       (\<lambda>(r, m). Some (m, add_to_root r (snd ic) (snd st)))"

definition merge_similar_clusters :: "cluster list \<Rightarrow> rat \<Rightarrow> cluster list option" where
  "merge_similar_clusters clusters threshold =
     (if length clusters \<le> 1 then Some clusters
      else
        Option.bind (merge_pairs clusters threshold [0 ..< length clusters]) (\<lambda>merged_into.
          map_option (\<lambda>st. map snd (snd st))
            (fold_opt collect_step (List.enumerate 0 clusters) (merged_into, []))))"

text \<open>
  \<^verbatim>\<open>cluster_templates_similar\<close>: templates of more than 5 characters are bucketed by
  equal template; buckets of at least 2 items are the exact clusters. Up to 50 of them
  are merged by similarity, more are returned as they are; either way sorted by size,
  largest first. \<^verbatim>\<open>cluster_templates\<close> fixes the threshold \<^verbatim>\<open>0.7\<close>.
\<close>

definition cluster_templates_similar :: "item list \<Rightarrow> rat \<Rightarrow> item list list option" where
  "cluster_templates_similar templates threshold =
     (if templates = [] then Some []
      else
        let valid_templates = filter (\<lambda>t. 5 < length (template t)) templates
        in if valid_templates = [] then Some []
           else
             let exact_clusters = group_by template valid_templates;
                 cluster_list =
                   map (\<lambda>(tmpl, its). \<lparr>cl_representative = tmpl, cl_items = its\<rparr>)
                       (filter (\<lambda>(tmpl, its). 2 \<le> length its) exact_clusters)
             in if length cluster_list \<le> 50
                then map_option
                       (\<lambda>merged. sorted_desc length
                          (map cl_items (filter (\<lambda>c. 2 \<le> length (cl_items c)) merged)))
                       (merge_similar_clusters cluster_list threshold)
                else Some (sorted_desc length (map cl_items cluster_list)))"

definition cluster_templates :: "item list \<Rightarrow> item list list option" where
  "cluster_templates templates = cluster_templates_similar templates (fl (7 / 10))"

section \<open>Properties of the clusterer\<close>

subsection \<open>The union-find returns\<close>

text \<open>
  A list \<^verbatim>\<open>merged_into\<close> is well formed when every entry is an index of the list and some
  rank decreases along every parent link; then \<^verbatim>\<open>find\<close> returns, leaves the list
  well formed and keeps the roots, and \<^verbatim>\<open>union\<close> returns a well-formed list.
\<close>

definition ranked :: "(nat \<Rightarrow> nat) \<Rightarrow> nat list \<Rightarrow> bool" where
  "ranked h m = (\<forall>x < length m. m ! x < length m \<and> (m ! x \<noteq> x \<longrightarrow> h (m ! x) < h x))"

lemma uf_find_ok:
  assumes "ranked h m" and "x < length m"
  shows "\<exists>r m'. uf_find m x = Some (r, m') \<and> ranked h m' \<and> length m' = length m
           \<and> r < length m \<and> m' ! r = r \<and> h r \<le> h x
           \<and> (\<forall>z < length m. m ! z = z \<longrightarrow> m' ! z = z)"
  using assms
proof (induction "h x" arbitrary: x m rule: less_induct)
  case less
  show ?case
  proof (cases "m ! x = x")
    case True
    then have "uf_find m x = Some (x, m)" using less.prems by (subst uf_find.simps) simp
    then show ?thesis using True less.prems by auto
  next
    case False
    let ?y = "m ! x"
    have y: "?y < length m" and hy: "h ?y < h x"
      using less.prems False by (auto simp: ranked_def)
    from less.hyps [OF hy less.prems(1) y]
    obtain r m1 where f: "uf_find m ?y = Some (r, m1)" and rk: "ranked h m1"
      and len: "length m1 = length m" and r: "r < length m" and root: "m1 ! r = r"
      and hr: "h r \<le> h ?y" and keep: "\<forall>z < length m. m ! z = z \<longrightarrow> m1 ! z = z"
      by blast
    have res: "uf_find m x = Some (r, m1[x := r])"
      using less.prems False f by (subst uf_find.simps) simp
    have rx: "r \<noteq> x" using hr hy by auto
    have rk': "ranked h (m1[x := r])"
      unfolding ranked_def
    proof (intro allI impI)
      fix z assume z: "z < length (m1[x := r])"
      show "m1[x := r] ! z < length (m1[x := r])
          \<and> (m1[x := r] ! z \<noteq> z \<longrightarrow> h (m1[x := r] ! z) < h z)"
      proof (cases "z = x")
        case True
        then show ?thesis using r len hr hy less.prems(2) by simp
      next
        case False
        then show ?thesis using rk z by (simp add: ranked_def)
      qed
    qed
    have "m1[x := r] ! r = r" using root rx by simp
    moreover have "\<forall>z < length m. m ! z = z \<longrightarrow> m1[x := r] ! z = z"
      using keep False by (metis nth_list_update_neq)
    moreover have "h r \<le> h x" using hr hy by simp
    ultimately show ?thesis using res rk' len r by simp
  qed
qed

definition uf_valid :: "nat list \<Rightarrow> bool" where
  "uf_valid m = (\<exists>h. ranked h m)"

lemma uf_valid_init: "uf_valid [0 ..< n]"
  unfolding uf_valid_def ranked_def by (intro exI [of _ "\<lambda>_. 0"]) simp

lemma uf_find_valid:
  assumes "uf_valid m" and "x < length m"
  shows "\<exists>r m'. uf_find m x = Some (r, m') \<and> uf_valid m' \<and> length m' = length m \<and> r < length m"
proof -
  obtain h where "ranked h m" using assms(1) uf_valid_def by blast
  from uf_find_ok [OF this assms(2)] show ?thesis unfolding uf_valid_def by blast
qed

lemma uf_union_valid:
  assumes "uf_valid m" and "x < length m" and "y < length m"
  shows "\<exists>m'. uf_union m x y = Some m' \<and> uf_valid m' \<and> length m' = length m"
proof -
  obtain h where h: "ranked h m" using assms(1) uf_valid_def by blast
  from uf_find_ok [OF h assms(2)]
  obtain rx m1 where f1: "uf_find m x = Some (rx, m1)" and rk1: "ranked h m1"
    and len1: "length m1 = length m" and rx: "rx < length m" and root1: "m1 ! rx = rx"
    by blast
  have y1: "y < length m1" using assms(3) len1 by simp
  from uf_find_ok [OF rk1 y1]
  obtain ry m2 where f2: "uf_find m1 y = Some (ry, m2)" and rk2: "ranked h m2"
    and len2: "length m2 = length m1" and ry: "ry < length m1" and root2: "m2 ! ry = ry"
    and keep: "\<forall>z < length m1. m1 ! z = z \<longrightarrow> m2 ! z = z"
    by blast
  have rootx: "m2 ! rx = rx" using keep rx len1 root1 by simp
  have res: "uf_union m x y = Some (if rx \<noteq> ry then m2[rx := ry] else m2)"
    by (simp add: uf_union_def f1 f2)
  show ?thesis
  proof (cases "rx = ry")
    case True
    then show ?thesis using res rk2 len1 len2 uf_valid_def by auto
  next
    case False
    let ?h = "\<lambda>z. if z = ry then 0 else h z + 1"
    have "ranked ?h (m2[rx := ry])"
      unfolding ranked_def
    proof (intro allI impI)
      fix z assume z: "z < length (m2[rx := ry])"
      then have z2: "z < length m2" by simp
      show "m2[rx := ry] ! z < length (m2[rx := ry])
          \<and> (m2[rx := ry] ! z \<noteq> z \<longrightarrow> ?h (m2[rx := ry] ! z) < ?h z)"
      proof (cases "z = rx")
        case True
        then show ?thesis using False ry len2 z2 by simp
      next
        case nz: False
        have b: "m2 ! z < length m2" and d: "m2 ! z \<noteq> z \<longrightarrow> h (m2 ! z) < h z"
          using rk2 z2 by (auto simp: ranked_def)
        have "m2 ! z \<noteq> z \<longrightarrow> z \<noteq> ry" using root2 by auto
        then show ?thesis using nz b d by auto
      qed
    qed
    then have "uf_valid (m2[rx := ry])" unfolding uf_valid_def by blast
    then show ?thesis using res False len1 len2 by simp
  qed
qed

lemma fold_opt_invariant:
  assumes "\<And>x s. x \<in> set xs \<Longrightarrow> I s \<Longrightarrow> \<exists>s'. f x s = Some s' \<and> I s'"
    and "I s"
  shows "\<exists>s'. fold_opt f xs s = Some s' \<and> I s'"
  using assms
proof (induction xs arbitrary: s)
  case Nil
  then show ?case by simp
next
  case (Cons x xs)
  obtain s1 where s1: "f x s = Some s1" "I s1" using Cons.prems by (meson list.set_intros(1))
  have "\<exists>s'. fold_opt f xs s1 = Some s' \<and> I s'"
    by (rule Cons.IH) (use Cons.prems s1 in auto)
  then show ?case using s1 by simp
qed

lemma cluster_pairs_bound: "(i, j) \<in> set (cluster_pairs n) \<Longrightarrow> i < n \<and> j < n"
  by (auto simp: cluster_pairs_def)

lemma merge_pairs_ok:
  assumes "uf_valid m" and "length m = length clusters"
  shows "\<exists>m'. merge_pairs clusters threshold m = Some m' \<and> uf_valid m'
           \<and> length m' = length clusters"
proof -
  let ?I = "\<lambda>m. uf_valid m \<and> length m = length clusters"
  have "\<exists>s'. fold_opt (\<lambda>ij m.
                 if similar_representatives threshold
                      (cl_representative (clusters ! fst ij))
                      (cl_representative (clusters ! snd ij))
                 then uf_union m (fst ij) (snd ij) else Some m)
              (cluster_pairs (length clusters)) m = Some s' \<and> ?I s'"
  proof (rule fold_opt_invariant [where I = ?I])
    fix ij s assume ij: "ij \<in> set (cluster_pairs (length clusters))" and s: "?I s"
    have b: "fst ij < length s" "snd ij < length s"
      using cluster_pairs_bound [of "fst ij" "snd ij" "length clusters"] ij s by auto
    show "\<exists>s'. (if similar_representatives threshold
                      (cl_representative (clusters ! fst ij))
                      (cl_representative (clusters ! snd ij))
                 then uf_union s (fst ij) (snd ij) else Some s) = Some s' \<and> ?I s'"
      using uf_union_valid [OF _ b] s by auto
  next
    show "?I m" using assms by simp
  qed
  then show ?thesis unfolding merge_pairs_def by simp
qed

subsection \<open>Merging moves every item into exactly one cluster\<close>

definition bucket_items :: "('k \<times> cluster) list \<Rightarrow> item multiset" where
  "bucket_items d = mset (concat (map (\<lambda>e. cl_items (snd e)) d))"

lemma bucket_items_new:
  "dict_get d r = None \<Longrightarrow> bucket_items (dict_set r e d) = bucket_items d + mset (cl_items e)"
  by (induction d) (auto simp: bucket_items_def dict_get_def split: if_splits)

lemma bucket_items_extend:
  "dict_get d r = Some e0 \<Longrightarrow> cl_items e = cl_items e0 @ xs \<Longrightarrow>
   bucket_items (dict_set r e d) = bucket_items d + mset xs"
  by (induction d) (auto simp: bucket_items_def dict_get_def split: if_splits)

lemma add_to_root_items:
  "bucket_items (add_to_root r c d) = bucket_items d + mset (cl_items c)"
proof (cases "dict_get d r")
  case None
  then show ?thesis by (simp add: add_to_root_def Let_def bucket_items_new)
next
  case (Some e0)
  then show ?thesis
    by (simp add: add_to_root_def Let_def bucket_items_extend [where ?e0.0 = e0])
qed

lemma collect_ok:
  assumes "uf_valid m" and "length m = n" and "\<forall>ic \<in> set ics. fst ic < n"
  shows "\<exists>m' d'. fold_opt collect_step ics (m, d) = Some (m', d')
           \<and> bucket_items d' = bucket_items d + mset (concat (map (\<lambda>ic. cl_items (snd ic)) ics))"
  using assms
proof (induction ics arbitrary: m d)
  case Nil
  then show ?case by simp
next
  case (Cons ic ics)
  have "fst ic < length m" using Cons.prems by simp
  from uf_find_valid [OF Cons.prems(1) this]
  obtain r m1 where f: "uf_find m (fst ic) = Some (r, m1)" and v: "uf_valid m1"
    and l: "length m1 = n" using Cons.prems(2) by auto
  have step: "collect_step ic (m, d) = Some (m1, add_to_root r (snd ic) d)"
    by (simp add: collect_step_def f)
  have "\<forall>ic \<in> set ics. fst ic < n" using Cons.prems(3) by simp
  from Cons.IH [OF v l this, of "add_to_root r (snd ic) d"]
  obtain m' d' where "fold_opt collect_step ics (m1, add_to_root r (snd ic) d) = Some (m', d')"
    and "bucket_items d' = bucket_items (add_to_root r (snd ic) d)
            + mset (concat (map (\<lambda>ic. cl_items (snd ic)) ics))"
    by blast
  then show ?case using step by (simp add: add_to_root_items)
qed

lemma enumerate_fst_bound: "ic \<in> set (List.enumerate 0 xs) \<Longrightarrow> fst ic < length xs"
  by (cases ic) (simp add: in_set_enumerate_eq)

lemma enumerate_snd: "map snd (List.enumerate n xs) = xs"
  by (simp add: enumerate_eq_zip)

lemma enumerate_items: "map (\<lambda>ic. cl_items (snd ic)) (List.enumerate n xs) = map cl_items xs"
  by (induction xs arbitrary: n) simp_all

lemma merge_similar_clusters_ok:
  "\<exists>merged. merge_similar_clusters clusters threshold = Some merged
     \<and> mset (concat (map cl_items merged)) = mset (concat (map cl_items clusters))"
proof (cases "length clusters \<le> 1")
  case True
  then show ?thesis by (simp add: merge_similar_clusters_def)
next
  case False
  have v0: "uf_valid [0 ..< length clusters]" by (rule uf_valid_init)
  have l0: "length [0 ..< length clusters] = length clusters" by simp
  from merge_pairs_ok [OF v0 l0, of threshold]
  obtain m where m: "merge_pairs clusters threshold [0 ..< length clusters] = Some m"
    and v: "uf_valid m" and l: "length m = length clusters"
    by blast
  have b: "\<forall>ic \<in> set (List.enumerate 0 clusters). fst ic < length clusters"
    using enumerate_fst_bound by blast
  from collect_ok [OF v l b, of "[]"]
  obtain m' d' where c: "fold_opt collect_step (List.enumerate 0 clusters) (m, []) = Some (m', d')"
    and items: "bucket_items d' = bucket_items ([] :: (nat \<times> cluster) list)
        + mset (concat (map (\<lambda>ic. cl_items (snd ic)) (List.enumerate 0 clusters)))"
    by blast
  have e: "bucket_items ([] :: (nat \<times> cluster) list) = {#}" by (simp add: bucket_items_def)
  have i2: "bucket_items d' = mset (concat (map cl_items clusters))"
    unfolding items e enumerate_items by simp
  have i3: "mset (concat (map cl_items (map snd d'))) = bucket_items d'"
    by (simp add: bucket_items_def comp_def)
  have res: "merge_similar_clusters clusters threshold = Some (map snd d')"
    using False by (simp add: merge_similar_clusters_def m c)
  show ?thesis unfolding res using i2 i3 by simp
qed

lemma dict_append_mset:
  "mset (concat (map snd (dict_append k v d))) = mset (concat (map snd d)) + {#v#}"
  by (induction d) auto

lemma group_by_mset: "mset (concat (map snd (group_by f xs))) = mset xs"
proof (induction xs rule: rev_induct)
  case Nil
  then show ?case by (simp add: group_by_def)
next
  case (snoc x xs)
  then show ?case by (simp add: group_by_snoc dict_append_mset)
qed

lemma filter_concat_subset:
  "mset (concat (map g (filter P xs))) \<subseteq># mset (concat (map g xs))"
proof (induction xs)
  case Nil
  then show ?case by simp
next
  case (Cons x xs)
  show ?case
  proof (cases "P x")
    case True
    then show ?thesis using Cons by simp
  next
    case False
    have "mset (concat (map g xs)) \<subseteq># mset (g x) + mset (concat (map g xs))"
      by simp
    then show ?thesis using False Cons by (simp add: subset_mset.order_trans)
  qed
qed

lemma distinct_submset:
  assumes "distinct ys" and "mset xs \<subseteq># mset ys"
  shows "distinct xs"
proof -
  have "count (mset xs) a \<le> 1" for a
  proof -
    have "count (mset xs) a \<le> count (mset ys) a"
      using assms(2) by (rule mset_subset_eq_count)
    also have "\<dots> \<le> 1" using assms(1) by (simp add: distinct_count_atmost_1)
    finally show ?thesis .
  qed
  then have "\<forall>a. count (mset xs) a = (if a \<in> set xs then 1 else 0)"
    by (metis count_mset_0_iff le_antisym less_one linorder_not_le order.refl zero_le)
  then show ?thesis unfolding distinct_count_atmost_1 .
qed

lemma sorted_desc_mset: "mset (sorted_desc f xs) = mset xs"
  by (simp add: sorted_desc_def)

lemma sorted_desc_set: "set (sorted_desc f xs) = set xs"
  by (simp add: sorted_desc_def)

lemma sorted_desc_sorted: "sorted_wrt (\<lambda>a b. f b \<le> f a) (sorted_desc f xs)"
proof -
  have "sorted (map f (sort_key f (rev xs)))" by (rule sorted_sort_key)
  then have "sorted_wrt (\<lambda>a b. f a \<le> f b) (sort_key f (rev xs))"
    by (simp add: sorted_map)
  then show ?thesis by (simp add: sorted_desc_def sorted_wrt_rev)
qed

lemma concat_mset_cong: "mset xs = mset ys \<Longrightarrow> mset (concat xs) = mset (concat ys)"
proof -
  assume eq: "mset xs = mset ys"
  have "mset (concat xs) = sum_mset (image_mset mset (mset xs))"
    by (simp add: mset_concat flip: sum_mset_sum_list)
  also have "\<dots> = sum_mset (image_mset mset (mset ys))" by (simp add: eq)
  also have "\<dots> = mset (concat ys)"
    by (simp add: mset_concat flip: sum_mset_sum_list)
  finally show ?thesis .
qed

lemma sorted_result:
  assumes "mset (concat groups) \<subseteq># mset templates" and "distinct templates"
    and "\<forall>c \<in> set groups. 2 \<le> length c"
  shows "(\<forall>c \<in> set (sorted_desc length groups). 2 \<le> length c)
       \<and> distinct (concat (sorted_desc length groups))
       \<and> sorted_wrt (\<lambda>a b. length b \<le> length a) (sorted_desc length groups)
       \<and> set (concat (sorted_desc length groups)) \<subseteq> set templates"
proof -
  have m: "mset (concat (sorted_desc length groups)) = mset (concat groups)"
    by (rule concat_mset_cong) (rule sorted_desc_mset)
  then have sub: "mset (concat (sorted_desc length groups)) \<subseteq># mset templates"
    using assms(1) by simp
  have d: "distinct (concat (sorted_desc length groups))"
    by (rule distinct_submset [OF assms(2) sub])
  have s: "set (concat (sorted_desc length groups)) \<subseteq> set templates"
    using set_mset_mono [OF sub] by simp
  show ?thesis
    using d s assms(3) sorted_desc_sorted [of length groups]
    by (simp add: sorted_desc_set)
qed

lemma exact_clusters_items:
  "mset (concat (map cl_items
      (map (\<lambda>(tmpl, its). \<lparr>cl_representative = tmpl, cl_items = its\<rparr>)
           (filter P (group_by f xs)))))
   \<subseteq># mset xs"
proof -
  have eq: "map cl_items (map (\<lambda>(tmpl, its). \<lparr>cl_representative = tmpl, cl_items = its\<rparr>)
           (filter P (group_by f xs))) = map snd (filter P (group_by f xs))"
    by (simp add: case_prod_unfold comp_def)
  have "mset (concat (map snd (filter P (group_by f xs)))) \<subseteq># mset xs"
    using filter_concat_subset [of snd P "group_by f xs"] by (simp add: group_by_mset)
  then show ?thesis unfolding eq .
qed

subsection \<open>The claim\<close>

text \<open>
  Claim C5. For every list of pairwise distinct template items and every threshold,
  \<^verbatim>\<open>cluster_templates_similar\<close> returns a list of clusters in which every cluster has at
  least 2 members, no item occurs twice (neither in two clusters nor twice in one), the
  sizes do not increase along the list, and every member is one of the input items. The
  statement covers both branches of the function: the merge by similarity for at most
  50 exact clusters and the exact clusters alone for more.
\<close>

theorem cluster_partition:
  assumes "distinct templates"
  shows "\<exists>res. cluster_templates_similar templates threshold = Some res
           \<and> (\<forall>c \<in> set res. 2 \<le> length c)
           \<and> distinct (concat res)
           \<and> sorted_wrt (\<lambda>a b. length b \<le> length a) res
           \<and> set (concat res) \<subseteq> set templates"
proof -
  let ?valid = "filter (\<lambda>t. 5 < length (template t)) templates"
  let ?cl = "map (\<lambda>(tmpl, its). \<lparr>cl_representative = tmpl, cl_items = its\<rparr>)
                 (filter (\<lambda>(tmpl, its). 2 \<le> length its) (group_by template ?valid))"
  have valid_sub: "mset ?valid \<subseteq># mset templates" by simp
  have cl_sub: "mset (concat (map cl_items ?cl)) \<subseteq># mset templates"
    using exact_clusters_items [of "\<lambda>(tmpl, its). 2 \<le> length its" template ?valid] valid_sub
    by (rule subset_mset.order_trans)
  have cl_big: "\<forall>c \<in> set (map cl_items ?cl). 2 \<le> length c" by auto
  show ?thesis
  proof (cases "templates = [] \<or> ?valid = []")
    case True
    then have "cluster_templates_similar templates threshold = Some []"
      by (auto simp: cluster_templates_similar_def Let_def)
    then show ?thesis by simp
  next
    case False
    show ?thesis
    proof (cases "length ?cl \<le> 50")
      case True
      obtain merged where mg: "merge_similar_clusters ?cl threshold = Some merged"
        and items: "mset (concat (map cl_items merged)) = mset (concat (map cl_items ?cl))"
        using merge_similar_clusters_ok by blast
      let ?groups = "map cl_items (filter (\<lambda>c. 2 \<le> length (cl_items c)) merged)"
      have res: "cluster_templates_similar templates threshold
          = Some (sorted_desc length ?groups)"
        using False True mg by (simp add: cluster_templates_similar_def Let_def)
      have "mset (concat ?groups) \<subseteq># mset (concat (map cl_items merged))"
        by (rule filter_concat_subset)
      then have sub: "mset (concat ?groups) \<subseteq># mset templates"
        using items cl_sub by simp
      have big: "\<forall>c \<in> set ?groups. 2 \<le> length c" by auto
      show ?thesis unfolding res using sorted_result [OF sub assms big] by blast
    next
      case big50: False
      have res: "cluster_templates_similar templates threshold
          = Some (sorted_desc length (map cl_items ?cl))"
        using False big50 by (simp add: cluster_templates_similar_def Let_def)
      show ?thesis unfolding res using sorted_result [OF cl_sub assms cl_big] by blast
    qed
  qed
qed

text \<open>
  An example: four sentences \<^verbatim>\<open>"\u5929\u6c14\u5f88\u597d\u5462"\<close>, two \<^verbatim>\<open>"\u5929\u6c14\u5f88\u597d\u554a"\<close> whose template is
  one edit away, two \<^verbatim>\<open>"\u4ed6\u8d70\u8fdb\u4e86\u623f\u95f4"\<close> and one sentence of its own. The similar
  templates merge into a cluster of 6, the other pair is a cluster of 2.
\<close>

definition example_cluster_items :: "item list" where
  "example_cluster_items =
     example_flat_items
     @ [example_item (asc ''c2'') 2 0 [22825, 27668, 24456, 22909, 21834],
        example_item (asc ''c3'') 3 0 [22825, 27668, 24456, 22909, 21834],
        example_item (asc ''c2'') 2 1 [20182, 36208, 36827, 20102, 25151, 38388],
        example_item (asc ''c3'') 3 1 [20182, 36208, 36827, 20102, 25151, 38388],
        example_item (asc ''c3'') 3 2 [22905, 21187, 28982, 22823, 24594]]"

theorem cluster_partition_witness:
  "distinct example_cluster_items
   \<and> (\<exists>res. cluster_templates_similar example_cluster_items (fl (7 / 10)) = Some res
          \<and> map length res = [6, 2]
          \<and> list_all (\<lambda>c. 2 \<le> length c) res
          \<and> distinct (concat res)
          \<and> sorted_wrt (\<lambda>a b. length b \<le> length a) res)"
proof -
  have d: "distinct example_cluster_items" by code_simp
  have v: "map_option (map length) (cluster_templates_similar example_cluster_items (fl (7 / 10)))
      = Some [6, 2]" by code_simp
  from cluster_partition [OF d, of "fl (7 / 10)"]
  obtain res where r: "cluster_templates_similar example_cluster_items (fl (7 / 10)) = Some res"
    and p: "\<forall>c \<in> set res. 2 \<le> length c" "distinct (concat res)"
      "sorted_wrt (\<lambda>a b. length b \<le> length a) res"
    by blast
  have l: "map length res = [6, 2]" using v r by simp
  have a: "list_all (\<lambda>c. 2 \<le> length c) res" using p(1) by (simp add: list_all_iff)
  show ?thesis by (intro conjI exI [of _ res] d r l a p(2) p(3))
qed

section \<open>Opening statistics, patterns and the score\<close>

text \<open>
  \<^verbatim>\<open>analyze_openings\<close>: the sentences at position 0 are classified; \<^verbatim>\<open>categories\<close> counts
  the types and \<^verbatim>\<open>opening_examples\<close> keeps up to three examples per type, the text cut
  to 50 characters and \<^verbatim>\<open>"..."\<close>. The dominant type is the most common one.
\<close>

record opening_analysis =
  oa_total_chapters :: nat
  oa_categories :: counter
  oa_examples :: "(pystr \<times> (int \<times> pystr) list) list"
  oa_dominant_type :: pystr
  oa_dominant_count :: nat
  oa_dominant_ratio :: rat
  oa_is_monotonous :: bool
  oa_suggestion :: pystr

definition opening_type_names :: "(pystr \<times> pystr) list" where
  "opening_type_names =
     [(asc ''time'', [26102, 38388]), (asc ''weather'', [22825, 27668, 47, 29615, 22659]),
      (asc ''dialogue'', [23545, 35805]), (asc ''action'', [21160, 20316]),
      (asc ''other'', [20854, 20182])]"

definition truncate_example :: "pystr \<Rightarrow> pystr" where
  "truncate_example t = (if 50 < length t then take 50 t @ asc ''...'' else t)"

definition opening_step ::
  "counter \<times> (pystr \<times> (int \<times> pystr) list) list \<Rightarrow> sentence_record
     \<Rightarrow> counter \<times> (pystr \<times> (int \<times> pystr) list) list" where
  "opening_step st opening =
     (let opening_type = analyze_opening_type (s_text opening);
          categories = counter_add opening_type 1 (fst st);
          current = (case dict_get (snd st) opening_type of None \<Rightarrow> [] | Some l \<Rightarrow> l);
          examples =
            dict_set opening_type
              (if length current < 3
               then current @ [(s_chapter_number opening, truncate_example (s_text opening))]
               else current)
              (snd st)
      in (categories, examples))"

definition analyze_openings :: "sentence_record list \<Rightarrow> opening_analysis" where
  "analyze_openings all_sentences =
     (let openings = filter (\<lambda>s. s_position s = 0) all_sentences;
          st = foldl opening_step ([], []) openings;
          categories = fst st;
          dominant = (case most_common 1 categories of
                        [] \<Rightarrow> (asc ''unknown'', 0)
                      | d # _ \<Rightarrow> d);
          dominant_ratio =
            (if categories \<noteq> [] \<and> openings \<noteq> []
             then fdiv (int (snd dominant)) (int (length openings)) else 0);
          suggestion =
            (if fl (6 / 10) < dominant_ratio
             then py_str_int (py_int (fmul dominant_ratio 100))
                  @ [37, 30340, 31456, 33410, 20197]
                  @ (case dict_get opening_type_names (fst dominant) of
                       Some name \<Rightarrow> name | None \<Rightarrow> fst dominant)
                  @ [24320, 22330, 65292, 24314, 35758, 23581, 35797, 26356, 22810, 26679,
                     30340, 24320, 22330, 26041, 24335]
             else [])
      in \<lparr>oa_total_chapters = length openings, oa_categories = categories,
          oa_examples = snd st, oa_dominant_type = fst dominant,
          oa_dominant_count = snd dominant, oa_dominant_ratio = py_round2 dominant_ratio,
          oa_is_monotonous = (fl (6 / 10) < dominant_ratio), oa_suggestion = suggestion\<rparr>)"

text \<open>
  The repeated patterns: one per cluster of at least 3 items, sorted by count, largest
  first. \<^verbatim>\<open>list(set(...))\<close> followed by \<^verbatim>\<open>sort()\<close> is the sorted list of the distinct
  chapter numbers.
\<close>

record pattern =
  pt_template :: pystr
  pt_count :: nat
  pt_examples :: "pystr list"
  pt_chapters :: "int list"
  pt_is_opening_pattern :: bool
  pt_is_ending_pattern :: bool

definition cluster_pattern :: "item list \<Rightarrow> pattern" where
  "cluster_pattern cl =
     \<lparr>pt_template = (case cl of [] \<Rightarrow> [] | c0 # _ \<Rightarrow> template c0),
      pt_count = length cl,
      pt_examples = map sent_text (take 5 cl),
      pt_chapters = sort (remdups (map chapter_number cl)),
      pt_is_opening_pattern = list_all is_opening cl,
      pt_is_ending_pattern = list_all is_ending cl\<rparr>"

definition find_patterns :: "item list list \<Rightarrow> pattern list" where
  "find_patterns clusters =
     sorted_desc pt_count (map cluster_pattern (filter (\<lambda>cl. 3 \<le> length cl) clusters))"

text \<open>\<^verbatim>\<open>calculate_pattern_score\<close>, with its four capped deductions.\<close>

definition pattern_penalty :: "nat \<Rightarrow> pattern \<Rightarrow> int" where
  "pattern_penalty chapter_count p =
     (let repeat_ratio = fdiv (int (pt_count p)) (int (max chapter_count 1))
      in if fl (5 / 10) < repeat_ratio then 5
         else if fl (3 / 10) < repeat_ratio then 3
         else if fl (2 / 10) < repeat_ratio then 2
         else 1)"

definition calculate_pattern_score ::
  "pattern list \<Rightarrow> opening_analysis \<Rightarrow> emotion_diversity \<Rightarrow> nat \<Rightarrow> ngram_analysis \<Rightarrow> int" where
  "calculate_pattern_score patterns opening emotion chapter_count ngram =
     (let score = 100 - min 30 (sum_list (map (pattern_penalty chapter_count) (take 10 patterns)));
          score =
            (if oa_is_monotonous opening
             then (if fl (8 / 10) < oa_dominant_ratio opening then score - 20
                   else if fl (6 / 10) < oa_dominant_ratio opening then score - 12
                   else score - 6)
             else score);
          emotion_score = ed_diversity_score emotion;
          score =
            (if emotion_score < 40 then score - 20
             else if emotion_score < 60 then score - 12
             else if emotion_score < 80 then score - 6
             else score);
          ngram_diversity = na_diversity_score ngram;
          bigram_count = length (na_bigram_patterns ngram);
          trigram_count = length (na_trigram_patterns ngram);
          score =
            (if ngram_diversity < 30 then score - 15
             else if ngram_diversity < 50 then score - 10
             else if ngram_diversity < 70 then score - 5
             else score);
          score =
            (if 5 < bigram_count then score - 8
             else if 3 < bigram_count then score - 5
             else if 1 < bigram_count then score - 2
             else score);
          score =
            (if 3 < trigram_count then score - 7
             else if 1 < trigram_count then score - 3
             else score)
      in max 0 (min 100 score))"

text \<open>
  \<^verbatim>\<open>get_pattern_level\<close>: the four level names, from \<^verbatim>\<open>"\u591a\u6837\u4e30\u5bcc"\<close> for 80 and more down
  to \<^verbatim>\<open>"\u9ad8\u5ea6\u5957\u8def\u5316"\<close> below 40.
\<close>

definition get_pattern_level :: "int \<Rightarrow> pystr" where
  "get_pattern_level score =
     (if 80 \<le> score then [22810, 26679, 20016, 23500]
      else if 60 \<le> score then [36739, 20026, 22810, 26679]
      else if 40 \<le> score then [22871, 36335, 21270, 26126, 26174]
      else [39640, 24230, 22871, 36335, 21270])"

text \<open>
  \<^verbatim>\<open>generate_pattern_suggestions\<close>. The texts are
  \<^verbatim>\<open>f"\u300c{template}\u300d\u51fa\u73b0{count}\u6b21\uff0c\u5efa\u8bae\u4f7f\u7528\u66f4\u591a\u6837\u7684\u8868\u8fbe\u65b9\u5f0f"\<close> for a pattern,
  \<^verbatim>\<open>f"\u53d9\u4e8b\u6a21\u5f0f\u300c{description}\u300d\u51fa\u73b0{count}\u6b21\uff0c\u5c1d\u8bd5\u6253\u7834\u56fa\u5b9a\u7684\u53e5\u5f0f\u8282\u594f"\<close> for a bigram pattern,
  \<^verbatim>\<open>f"\u4e09\u53e5\u5f0f\u6a21\u5f0f\u300c{description}\u300d\u9891\u7e41\u51fa\u73b0\uff0c\u5efa\u8bae\u589e\u52a0\u53d9\u4e8b\u7ed3\u6784\u53d8\u5316"\<close> for a trigram pattern, and
  \<^verbatim>\<open>"\u53d9\u4e8b\u8282\u594f\u8f83\u4e3a\u5355\u4e00\uff0c\u5efa\u8bae\u7a7f\u63d2\u4e0d\u540c\u7c7b\u578b\u7684\u53e5\u5b50\u7ec4\u5408"\<close> for a low n-gram diversity.
\<close>

definition pattern_suggestion :: "pattern \<Rightarrow> pystr" where
  "pattern_suggestion p =
     (let t = pt_template p;
          t = (if 30 < length t then take 30 t @ asc ''...'' else t)
      in [12300] @ t @ [12301, 20986, 29616] @ py_str_nat (pt_count p)
         @ [27425, 65292, 24314, 35758, 20351, 29992, 26356, 22810, 26679, 30340, 34920,
            36798, 26041, 24335])"

definition bigram_suggestion :: "repetitive_pattern \<Rightarrow> pystr" where
  "bigram_suggestion bp =
     [21465, 20107, 27169, 24335, 12300] @ rp_description bp @ [12301, 20986, 29616]
     @ py_str_nat (rp_count bp)
     @ [27425, 65292, 23581, 35797, 25171, 30772, 22266, 23450, 30340, 21477, 24335, 33410,
        22863]"

definition trigram_suggestion :: "repetitive_pattern \<Rightarrow> pystr" where
  "trigram_suggestion tp =
     [19977, 21477, 24335, 27169, 24335, 12300] @ rp_description tp
     @ [12301, 39057, 32321, 20986, 29616, 65292, 24314, 35758, 22686, 21152, 21465, 20107,
        32467, 26500, 21464, 21270]"

definition generate_pattern_suggestions ::
  "pattern list \<Rightarrow> opening_analysis \<Rightarrow> emotion_diversity \<Rightarrow> ngram_analysis \<Rightarrow> pystr list" where
  "generate_pattern_suggestions patterns opening emotion ngram =
     map pattern_suggestion (filter (\<lambda>p. 5 \<le> pt_count p) (take 5 patterns))
     @ (if oa_suggestion opening \<noteq> [] then [oa_suggestion opening] else [])
     @ (if ed_suggestion emotion \<noteq> [] then [ed_suggestion emotion] else [])
     @ map bigram_suggestion (filter (\<lambda>bp. 5 \<le> rp_count bp) (take 3 (na_bigram_patterns ngram)))
     @ map trigram_suggestion (filter (\<lambda>tp. 4 \<le> rp_count tp) (take 2 (na_trigram_patterns ngram)))
     @ (if na_diversity_score ngram < 40
        then [[21465, 20107, 33410, 22863, 36739, 20026, 21333, 19968, 65292, 24314, 35758,
               31359, 25554, 19981, 21516, 31867, 22411, 30340, 21477, 23376, 32452, 21512]]
        else [])"

section \<open>Incremental cache manager\<close>

text \<open>
  \<^verbatim>\<open>compute_content_hash\<close> is \<^verbatim>\<open>hashlib.md5(content.encode('utf-8')).hexdigest()\<close>. The
  digest function belongs to the Python library and is a parameter, from the bytes to
  the hexadecimal string. \<^verbatim>\<open>encode('utf-8')\<close> is modelled: it raises
  \<^verbatim>\<open>UnicodeEncodeError\<close> on a surrogate code point (U+D800 to U+DFFF), which a Python
  string can hold. Numbers outside the range of code points are not characters of any
  string; the model gives them the same error.
\<close>

type_synonym digest = "int list \<Rightarrow> pystr"

definition utf8_char :: "int \<Rightarrow> py_error + int list" where
  "utf8_char c =
     (if c < 0 \<or> 1114111 < c then Inl UnicodeEncodeError
      else if c < 128 then Inr [c]
      else if c < 2048 then Inr [192 + c div 64, 128 + c mod 64]
      else if 55296 \<le> c \<and> c \<le> 57343 then Inl UnicodeEncodeError
      else if c < 65536 then Inr [224 + c div 4096, 128 + (c div 64) mod 64, 128 + c mod 64]
      else Inr [240 + c div 262144, 128 + (c div 4096) mod 64, 128 + (c div 64) mod 64,
                128 + c mod 64])"

fun encode_utf8 :: "pystr \<Rightarrow> py_error + int list" where
  "encode_utf8 [] = Inr []"
| "encode_utf8 (c # cs) =
     (case utf8_char c of
        Inl e \<Rightarrow> Inl e
      | Inr bs \<Rightarrow> (case encode_utf8 cs of Inl e \<Rightarrow> Inl e | Inr rest \<Rightarrow> Inr (bs @ rest)))"

definition compute_content_hash :: "digest \<Rightarrow> pystr \<Rightarrow> py_error + pystr" where
  "compute_content_hash md5 content =
     (case encode_utf8 content of Inl e \<Rightarrow> Inl e | Inr bs \<Rightarrow> Inr (md5 bs))"

definition ANALYSIS_VERSION :: pystr where
  "ANALYSIS_VERSION = asc ''2.0''"

text \<open>
  A row of \<^verbatim>\<open>ChapterPatternCache\<close> (its time stamps are left out) and the table, with at
  most one row per chapter id: the column is unique. \<^verbatim>\<open>emotion_stats\<close> is nullable.
\<close>

record cache_entry =
  ce_project_id :: pystr
  ce_chapter_id :: pystr
  ce_chapter_number :: int
  ce_content_hash :: pystr
  ce_templates :: "template_entry list"
  ce_sentence_count :: nat
  ce_opening_type :: "pystr option"
  ce_emotion_stats :: "(pystr \<times> emotion_stat) list option"
  ce_analysis_version :: pystr

type_synonym cache_table = "(pystr \<times> cache_entry) list"

text \<open>
  The test \<^verbatim>\<open>cache and cache.content_hash == content_hash and cache.analysis_version ==
  ANALYSIS_VERSION\<close>, made only when no refresh is forced: \<open>usable_cache\<close> is the row the
  code reuses, if any. Then the analysis built from a reused row.
\<close>

definition cache_valid :: "cache_entry option \<Rightarrow> pystr \<Rightarrow> bool" where
  "cache_valid cache content_hash =
     (case cache of
        None \<Rightarrow> False
      | Some c \<Rightarrow> ce_content_hash c = content_hash \<and> ce_analysis_version c = ANALYSIS_VERSION)"

definition usable_cache :: "bool \<Rightarrow> cache_entry option \<Rightarrow> pystr \<Rightarrow> cache_entry option" where
  "usable_cache force_refresh cache content_hash =
     (if \<not> force_refresh \<and> cache_valid cache content_hash then cache else None)"

definition cached_analysis :: "chapter_row \<Rightarrow> cache_entry \<Rightarrow> chapter_analysis" where
  "cached_analysis ch c =
     \<lparr>ca_chapter_id = ch_id ch, ca_chapter_number = ch_number ch,
      ca_chapter_title = Some (ch_title ch), ca_templates = ce_templates c,
      ca_sentence_count = ce_sentence_count c, ca_opening_type = ce_opening_type c,
      ca_emotion_stats = (case ce_emotion_stats c of None \<Rightarrow> [] | Some s \<Rightarrow> s)\<rparr>"

text \<open>
  \<^verbatim>\<open>get_or_create_chapter_cache\<close>: a valid row is returned as it is, unless a refresh is
  forced; otherwise the chapter is analysed and its row is updated in place, or created
  when there is none.
\<close>

definition store_analysis ::
  "chapter_row \<Rightarrow> pystr \<Rightarrow> chapter_analysis \<Rightarrow> cache_table \<Rightarrow> cache_table" where
  "store_analysis ch content_hash analysis caches =
     (case dict_get caches (ch_id ch) of
        Some c \<Rightarrow>
          dict_set (ch_id ch)
            (c\<lparr>ce_content_hash := content_hash, ce_chapter_number := ch_number ch,
               ce_templates := ca_templates analysis,
               ce_sentence_count := ca_sentence_count analysis,
               ce_opening_type := ca_opening_type analysis,
               ce_emotion_stats := Some (ca_emotion_stats analysis),
               ce_analysis_version := ANALYSIS_VERSION\<rparr>)
            caches
      | None \<Rightarrow>
          dict_set (ch_id ch)
            \<lparr>ce_project_id = ch_project_id ch, ce_chapter_id = ch_id ch,
             ce_chapter_number = ch_number ch, ce_content_hash = content_hash,
             ce_templates = ca_templates analysis,
             ce_sentence_count = ca_sentence_count analysis,
             ce_opening_type = ca_opening_type analysis,
             ce_emotion_stats = Some (ca_emotion_stats analysis),
             ce_analysis_version = ANALYSIS_VERSION\<rparr>
            caches)"

definition get_or_create_chapter_cache ::
  "digest \<Rightarrow> tagger option \<Rightarrow> chapter_row \<Rightarrow> bool \<Rightarrow> cache_table
     \<Rightarrow> py_error + chapter_analysis \<times> cache_table" where
  "get_or_create_chapter_cache md5 jieba ch force_refresh caches =
     (case compute_content_hash md5 (ch_content ch) of
        Inl e \<Rightarrow> Inl e
      | Inr content_hash \<Rightarrow>
          (case usable_cache force_refresh (dict_get caches (ch_id ch)) content_hash of
             Some c \<Rightarrow> Inr (cached_analysis ch c, caches)
           | None \<Rightarrow>
               let analysis = analyze_single_chapter jieba (ch_id ch) (ch_number ch)
                                (ch_content ch) (ch_title ch)
               in Inr (analysis, store_analysis ch content_hash analysis caches)))"

text \<open>
  The body of the loop over the chapters with content in
  \<^verbatim>\<open>analyze_project_patterns_incremental\<close>. The state is the list of chapter analyses,
  the two counters and the cache table.
\<close>

record loop_state =
  ls_analyses :: "chapter_analysis list"
  ls_cached_count :: nat
  ls_refreshed_count :: nat
  ls_caches :: cache_table

definition process_chapter ::
  "digest \<Rightarrow> tagger option \<Rightarrow> bool \<Rightarrow> chapter_row \<Rightarrow> loop_state \<Rightarrow> py_error + loop_state" where
  "process_chapter md5 jieba force_refresh ch st =
     (if ch_content ch = [] then Inr st
      else
        case compute_content_hash md5 (ch_content ch) of
          Inl e \<Rightarrow> Inl e
        | Inr content_hash \<Rightarrow>
            (case usable_cache force_refresh (dict_get (ls_caches st) (ch_id ch)) content_hash of
               Some c \<Rightarrow>
                 Inr (st\<lparr>ls_analyses := ls_analyses st @ [cached_analysis ch c],
                         ls_cached_count := ls_cached_count st + 1\<rparr>)
             | None \<Rightarrow>
                 (case get_or_create_chapter_cache md5 jieba ch True (ls_caches st) of
                    Inl e \<Rightarrow> Inl e
                  | Inr (analysis, caches) \<Rightarrow>
                      Inr (st\<lparr>ls_analyses := ls_analyses st @ [analysis],
                              ls_refreshed_count := ls_refreshed_count st + 1,
                              ls_caches := caches\<rparr>))))"

text \<open>
  The aggregation over all chapter analyses (steps 3 to 11): the items and sentence
  records, the clusters, the patterns, the three analyses, the score, the level and the
  suggestions. \<open>analysis_body\<close> is the result of the full analysis; the incremental
  result adds the two counters of \<^verbatim>\<open>incremental_stats\<close>. A clustering that returns no
  value would end the run; it is the error \<^verbatim>\<open>RecursionError\<close> here.
\<close>

record analysis_body =
  ar_score :: int
  ar_level :: pystr
  ar_chapters_analyzed :: nat
  ar_patterns_found :: nat
  ar_top_patterns :: "pattern list"
  ar_opening_analysis :: opening_analysis
  ar_emotion_diversity :: emotion_diversity
  ar_ngram_analysis :: ngram_analysis
  ar_suggestions :: "pystr list"

record incremental_result = analysis_body +
  ir_cached_chapters :: nat
  ir_refreshed_chapters :: nat

definition analysis_items :: "chapter_analysis \<Rightarrow> item list" where
  "analysis_items ca =
     map (\<lambda>t. \<lparr>sent_text = sent_text t, template = template t, position = position t,
                is_opening = is_opening t, is_ending = is_ending t,
                chapter_id = ca_chapter_id ca, chapter_number = ca_chapter_number ca,
                chapter_title = (case ca_chapter_title ca of None \<Rightarrow> [] | Some t \<Rightarrow> t)\<rparr>)
         (ca_templates ca)"

definition analysis_sentences :: "chapter_analysis \<Rightarrow> sentence_record list" where
  "analysis_sentences ca =
     map (\<lambda>t. \<lparr>s_text = sent_text t, s_chapter_id = ca_chapter_id ca,
                s_chapter_number = ca_chapter_number ca, s_chapter_title = None,
                s_position = position t, s_is_opening = is_opening t,
                s_is_ending = is_ending t\<rparr>)
         (ca_templates ca)"

definition aggregate_analyses :: "chapter_analysis list \<Rightarrow> nat \<Rightarrow> py_error + analysis_body" where
  "aggregate_analyses chapter_analyses chapter_count =
     (let all_templates = concat (map analysis_items chapter_analyses);
          all_sentences = concat (map analysis_sentences chapter_analyses)
      in case cluster_templates all_templates of
           None \<Rightarrow> Inl RecursionError
         | Some clusters \<Rightarrow>
             let patterns = find_patterns clusters;
                 opening = analyze_openings all_sentences
             in case aggregate_emotion_stats chapter_analyses of
                  Inl e \<Rightarrow> Inl e
                | Inr emotion \<Rightarrow>
                    let ngram = analyze_ngram_patterns all_templates;
                        score = calculate_pattern_score patterns opening emotion
                                  chapter_count ngram
                    in Inr \<lparr>ar_score = score, ar_level = get_pattern_level score,
                            ar_chapters_analyzed = chapter_count,
                            ar_patterns_found = length patterns,
                            ar_top_patterns = take 10 patterns,
                            ar_opening_analysis = opening,
                            ar_emotion_diversity = emotion,
                            ar_ngram_analysis = ngram,
                            ar_suggestions =
                              generate_pattern_suggestions patterns opening emotion ngram\<rparr>)"

text \<open>
  The result of a run: the status \<^verbatim>\<open>insufficient_data\<close> with its message and the
  number of chapters, the status \<^verbatim>\<open>no_content\<close> with its message, or \<^verbatim>\<open>success\<close>.
\<close>

datatype run_result =
    InsufficientData pystr nat
  | NoContent pystr
  | Success incremental_result

text \<open>
  The database as the run sees it: the cache table and the single saved analysis of the
  project (\<^verbatim>\<open>save_pattern_analysis\<close> stores the fields of the result, without the
  counters, and the detection version). A run that raises commits nothing.
\<close>

record db_state =
  db_caches :: cache_table
  db_analysis :: "(analysis_body \<times> pystr) option"

definition run_loop ::
  "digest \<Rightarrow> tagger option \<Rightarrow> bool \<Rightarrow> chapter_row list \<Rightarrow> cache_table
     \<Rightarrow> py_error + loop_state" where
  "run_loop md5 jieba force_refresh chapters caches =
     fold_err (process_chapter md5 jieba force_refresh) chapters
       \<lparr>ls_analyses = [], ls_cached_count = 0, ls_refreshed_count = 0, ls_caches = caches\<rparr>"

definition analyze_project_patterns_incremental ::
  "digest \<Rightarrow> tagger option \<Rightarrow> nat \<Rightarrow> bool \<Rightarrow> chapter_row list \<Rightarrow> db_state
     \<Rightarrow> py_error + run_result \<times> db_state" where
  "analyze_project_patterns_incremental md5 jieba min_chapters force_refresh chapters db =
     (if length chapters < min_chapters
      then Inr (InsufficientData
                  ([38656, 35201, 33267, 23569] @ py_str_nat min_chapters
                   @ [20010, 31456, 33410, 25165, 33021, 36827, 34892, 22871, 36335, 21270,
                      20998, 26512])
                  (length chapters), db)
      else
        case run_loop md5 jieba force_refresh chapters (db_caches db) of
          Inl e \<Rightarrow> Inl e
        | Inr st \<Rightarrow>
            if ls_analyses st = []
            then Inr (NoContent [31456, 33410, 20869, 23481, 20026, 31354], db)
            else
              case aggregate_analyses (ls_analyses st) (length chapters) of
                Inl e \<Rightarrow> Inl e
              | Inr body \<Rightarrow>
                  Inr (Success
                         \<lparr>ar_score = ar_score body, ar_level = ar_level body,
                          ar_chapters_analyzed = ar_chapters_analyzed body,
                          ar_patterns_found = ar_patterns_found body,
                          ar_top_patterns = ar_top_patterns body,
                          ar_opening_analysis = ar_opening_analysis body,
                          ar_emotion_diversity = ar_emotion_diversity body,
                          ar_ngram_analysis = ar_ngram_analysis body,
                          ar_suggestions = ar_suggestions body,
                          ir_cached_chapters = ls_cached_count st,
                          ir_refreshed_chapters = ls_refreshed_count st\<rparr>,
                       \<lparr>db_caches = ls_caches st,
                        db_analysis = Some (body, asc ''2.0'')\<rparr>))"

section \<open>Properties of the incremental cache manager\<close>

subsection \<open>Notions used in the statements\<close>


definition served_by :: "digest \<Rightarrow> cache_table \<Rightarrow> chapter_row \<Rightarrow> chapter_analysis \<Rightarrow> bool" where
  "served_by md5 caches ch a =
     (\<exists>c h. compute_content_hash md5 (ch_content ch) = Inr h
           \<and> dict_get caches (ch_id ch) = Some c \<and> cache_valid (Some c) h
           \<and> cached_analysis ch c = a)"

text \<open>The loop over the chapters from any state, and its first state.\<close>

abbreviation loop_from ::
  "digest \<Rightarrow> tagger option \<Rightarrow> bool \<Rightarrow> chapter_row list \<Rightarrow> loop_state \<Rightarrow> py_error + loop_state" where
  "loop_from md5 jieba force chapters st \<equiv> fold_err (process_chapter md5 jieba force) chapters st"

definition initial_state :: "cache_table \<Rightarrow> loop_state" where
  "initial_state caches =
     \<lparr>ls_analyses = [], ls_cached_count = 0, ls_refreshed_count = 0, ls_caches = caches\<rparr>"

text \<open>
  The dictionary returned by a successful run, from the aggregated analysis and the last
  state of the loop; the message of the status \<^verbatim>\<open>insufficient_data\<close>; the chapters that
  the loop does not pass over; a project in which the text of the chapter at index \<open>i\<close>
  has been edited.
\<close>

definition success_result :: "analysis_body \<Rightarrow> loop_state \<Rightarrow> incremental_result" where
  "success_result body st =
     \<lparr>ar_score = ar_score body, ar_level = ar_level body,
      ar_chapters_analyzed = ar_chapters_analyzed body,
      ar_patterns_found = ar_patterns_found body,
      ar_top_patterns = ar_top_patterns body,
      ar_opening_analysis = ar_opening_analysis body,
      ar_emotion_diversity = ar_emotion_diversity body,
      ar_ngram_analysis = ar_ngram_analysis body,
      ar_suggestions = ar_suggestions body,
      ir_cached_chapters = ls_cached_count st,
      ir_refreshed_chapters = ls_refreshed_count st\<rparr>"

definition insufficient_message :: "nat \<Rightarrow> pystr" where
  "insufficient_message n =
     [38656, 35201, 33267, 23569] @ py_str_nat n
     @ [20010, 31456, 33410, 25165, 33021, 36827, 34892, 22871, 36335, 21270, 20998, 26512]"

definition content_chapters :: "chapter_row list \<Rightarrow> chapter_row list" where
  "content_chapters chs = filter (\<lambda>ch. ch_content ch \<noteq> []) chs"

definition edit_chapter :: "chapter_row list \<Rightarrow> nat \<Rightarrow> pystr \<Rightarrow> chapter_row list" where
  "edit_chapter chs i new_content = chs[i := (chs ! i)\<lparr>ch_content := new_content\<rparr>]"

subsection \<open>One step of the loop\<close>

lemma dict_get_dict_set_other: "k' \<noteq> k \<Longrightarrow> dict_get (dict_set k v d) k' = dict_get d k'"
  by (simp add: dict_get_dict_set)

lemma dict_get_dict_set_same: "dict_get (dict_set k v d) k = Some v"
  by (simp add: dict_get_dict_set)

lemma store_analysis_other:
  "cid \<noteq> ch_id ch \<Longrightarrow> dict_get (store_analysis ch h a caches) cid = dict_get caches cid"
  by (simp add: store_analysis_def dict_get_dict_set_other split: option.splits)

lemma store_analysis_same:
  "\<exists>c. dict_get (store_analysis ch h a caches) (ch_id ch) = Some c
       \<and> ce_content_hash c = h \<and> ce_analysis_version c = ANALYSIS_VERSION
       \<and> ce_templates c = ca_templates a \<and> ce_sentence_count c = ca_sentence_count a
       \<and> ce_opening_type c = ca_opening_type a \<and> ce_emotion_stats c = Some (ca_emotion_stats a)"
  by (simp add: store_analysis_def dict_get_dict_set_same split: option.splits)

lemma usable_cache_Some:
  "usable_cache force cache h = Some c \<longleftrightarrow> \<not> force \<and> cache = Some c \<and> cache_valid cache h"
  by (auto simp: usable_cache_def cache_valid_def split: option.splits)

lemma usable_cache_None:
  "usable_cache force cache h = None \<longleftrightarrow> force \<or> \<not> cache_valid cache h"
  by (auto simp: usable_cache_def cache_valid_def split: option.splits)

lemma analyze_single_chapter_fields:
  "content \<noteq> [] \<Longrightarrow>
   ca_chapter_id (analyze_single_chapter jieba cid num content title) = cid
   \<and> ca_chapter_number (analyze_single_chapter jieba cid num content title) = num
   \<and> ca_chapter_title (analyze_single_chapter jieba cid num content title) = Some title"
  by (simp add: analyze_single_chapter_def Let_def)

lemma process_chapter_empty:
  "ch_content ch = [] \<Longrightarrow> process_chapter md5 jieba force ch st = Inr st"
  by (simp add: process_chapter_def)

lemma process_chapter_fail:
  "ch_content ch \<noteq> [] \<Longrightarrow> compute_content_hash md5 (ch_content ch) = Inl e \<Longrightarrow>
   process_chapter md5 jieba force ch st = Inl e"
  by (simp add: process_chapter_def)

lemma process_chapter_reuse:
  assumes "ch_content ch \<noteq> []" and "compute_content_hash md5 (ch_content ch) = Inr h"
    and "\<not> force" and "cache_valid (dict_get (ls_caches st) (ch_id ch)) h"
  shows "\<exists>c. dict_get (ls_caches st) (ch_id ch) = Some c
           \<and> process_chapter md5 jieba force ch st
               = Inr (st\<lparr>ls_analyses := ls_analyses st @ [cached_analysis ch c],
                         ls_cached_count := ls_cached_count st + 1\<rparr>)"
proof -
  obtain c where c: "dict_get (ls_caches st) (ch_id ch) = Some c"
    using assms(4) by (auto simp: cache_valid_def split: option.splits)
  have "usable_cache force (dict_get (ls_caches st) (ch_id ch)) h = Some c"
    using assms(3,4) c by (simp add: usable_cache_Some)
  then show ?thesis using assms(1,2) c by (simp add: process_chapter_def)
qed

lemma process_chapter_refresh:
  assumes "ch_content ch \<noteq> []" and "compute_content_hash md5 (ch_content ch) = Inr h"
    and "force \<or> \<not> cache_valid (dict_get (ls_caches st) (ch_id ch)) h"
  shows "process_chapter md5 jieba force ch st
           = Inr (st\<lparr>ls_analyses := ls_analyses st
                       @ [analyze_single_chapter jieba (ch_id ch) (ch_number ch)
                            (ch_content ch) (ch_title ch)],
                     ls_refreshed_count := ls_refreshed_count st + 1,
                     ls_caches := store_analysis ch h
                       (analyze_single_chapter jieba (ch_id ch) (ch_number ch)
                          (ch_content ch) (ch_title ch)) (ls_caches st)\<rparr>)"
proof -
  have u: "usable_cache force (dict_get (ls_caches st) (ch_id ch)) h = None"
    using assms(3) by (simp add: usable_cache_None)
  have g: "get_or_create_chapter_cache md5 jieba ch True (ls_caches st)
      = Inr (analyze_single_chapter jieba (ch_id ch) (ch_number ch) (ch_content ch) (ch_title ch),
             store_analysis ch h
               (analyze_single_chapter jieba (ch_id ch) (ch_number ch)
                  (ch_content ch) (ch_title ch)) (ls_caches st))"
    using assms(2) by (simp add: get_or_create_chapter_cache_def usable_cache_def Let_def)
  show ?thesis using assms(1,2) u g by (simp add: process_chapter_def)
qed

lemma cached_analysis_of_stored:
  assumes "ch_content ch \<noteq> []"
    and "ce_templates c = ca_templates a" and "ce_sentence_count c = ca_sentence_count a"
    and "ce_opening_type c = ca_opening_type a" and "ce_emotion_stats c = Some (ca_emotion_stats a)"
    and "a = analyze_single_chapter jieba (ch_id ch) (ch_number ch) (ch_content ch) (ch_title ch)"
  shows "cached_analysis ch c = a"
proof -
  have "ca_chapter_id a = ch_id ch \<and> ca_chapter_number a = ch_number ch
      \<and> ca_chapter_title a = Some (ch_title ch)"
    unfolding assms(6) using assms(1) by (rule analyze_single_chapter_fields)
  then show ?thesis using assms(2-5) by (simp add: cached_analysis_def)
qed

text \<open>
  A step that returns leaves every other chapter's row alone, and a step on a chapter
  with content leaves a valid row whose analysis is the one it appended.
\<close>

lemma process_chapter_frame:
  assumes "process_chapter md5 jieba force ch st = Inr st'" and "cid \<noteq> ch_id ch"
  shows "dict_get (ls_caches st') cid = dict_get (ls_caches st) cid"
proof (cases "ch_content ch = []")
  case True
  then show ?thesis using assms by (simp add: process_chapter_empty)
next
  case False
  then obtain h where h: "compute_content_hash md5 (ch_content ch) = Inr h"
    using assms(1) process_chapter_fail [OF False, of md5 _ jieba force st]
    by (cases "compute_content_hash md5 (ch_content ch)") auto
  show ?thesis
  proof (cases "\<not> force \<and> cache_valid (dict_get (ls_caches st) (ch_id ch)) h")
    case True
    then show ?thesis
      using process_chapter_reuse [OF False h, of force st jieba] assms(1) by auto
  next
    case False
    then have "force \<or> \<not> cache_valid (dict_get (ls_caches st) (ch_id ch)) h" by blast
    from process_chapter_refresh [OF \<open>ch_content ch \<noteq> []\<close> h this, of jieba]
    show ?thesis using assms by (auto simp: store_analysis_other)
  qed
qed

lemma process_chapter_result:
  assumes "process_chapter md5 jieba force ch st = Inr st'" and "ch_content ch \<noteq> []"
  shows "\<exists>a c h. ls_analyses st' = ls_analyses st @ [a]
           \<and> compute_content_hash md5 (ch_content ch) = Inr h
           \<and> dict_get (ls_caches st') (ch_id ch) = Some c
           \<and> cache_valid (Some c) h \<and> cached_analysis ch c = a
           \<and> ls_cached_count st' + ls_refreshed_count st'
               = ls_cached_count st + ls_refreshed_count st + 1"
proof -
  obtain h where h: "compute_content_hash md5 (ch_content ch) = Inr h"
    using assms process_chapter_fail [OF assms(2), of md5 _ jieba force st]
    by (cases "compute_content_hash md5 (ch_content ch)") auto
  show ?thesis
  proof (cases "\<not> force \<and> cache_valid (dict_get (ls_caches st) (ch_id ch)) h")
    case True
    from process_chapter_reuse [OF assms(2) h, of force st jieba] True
    obtain c where c: "dict_get (ls_caches st) (ch_id ch) = Some c"
      and r: "process_chapter md5 jieba force ch st
               = Inr (st\<lparr>ls_analyses := ls_analyses st @ [cached_analysis ch c],
                         ls_cached_count := ls_cached_count st + 1\<rparr>)"
      by blast
    have st': "st' = st\<lparr>ls_analyses := ls_analyses st @ [cached_analysis ch c],
                         ls_cached_count := ls_cached_count st + 1\<rparr>"
      using r assms(1) by simp
    have "cache_valid (Some c) h" using True c by simp
    then show ?thesis using st' c h by simp
  next
    case False
    then have f: "force \<or> \<not> cache_valid (dict_get (ls_caches st) (ch_id ch)) h" by blast
    let ?a = "analyze_single_chapter jieba (ch_id ch) (ch_number ch) (ch_content ch) (ch_title ch)"
    have st': "st' = st\<lparr>ls_analyses := ls_analyses st @ [?a],
                     ls_refreshed_count := ls_refreshed_count st + 1,
                     ls_caches := store_analysis ch h ?a (ls_caches st)\<rparr>"
      using process_chapter_refresh [OF assms(2) h f, of jieba] assms(1) by simp
    obtain c where c: "dict_get (store_analysis ch h ?a (ls_caches st)) (ch_id ch) = Some c"
      and v: "ce_content_hash c = h" "ce_analysis_version c = ANALYSIS_VERSION"
      and s: "ce_templates c = ca_templates ?a" "ce_sentence_count c = ca_sentence_count ?a"
        "ce_opening_type c = ca_opening_type ?a" "ce_emotion_stats c = Some (ca_emotion_stats ?a)"
      using store_analysis_same [of ch h ?a "ls_caches st"] by blast
    have "cached_analysis ch c = ?a"
      by (rule cached_analysis_of_stored [OF assms(2) s]) simp
    moreover have "cache_valid (Some c) h" using v by (simp add: cache_valid_def)
    ultimately show ?thesis using st' c h by simp
  qed
qed

text \<open>The only error of a step is the one of the encoding.\<close>

lemma encode_utf8_error: "encode_utf8 s = Inl e \<Longrightarrow> e = UnicodeEncodeError"
  by (induction s arbitrary: e) (auto simp: utf8_char_def split: sum.splits if_splits)

lemma process_chapter_error:
  "process_chapter md5 jieba force ch st = Inl e \<Longrightarrow> e = UnicodeEncodeError"
  by (auto simp: process_chapter_def get_or_create_chapter_cache_def compute_content_hash_def
        Let_def dest: encode_utf8_error split: if_splits sum.splits option.splits)

subsection \<open>The loop\<close>

lemma loop_frame:
  "loop_from md5 jieba force chs st = Inr st' \<Longrightarrow> cid \<notin> ch_id ` set chs \<Longrightarrow>
   dict_get (ls_caches st') cid = dict_get (ls_caches st) cid"
proof (induction chs arbitrary: st)
  case Nil
  then show ?case by simp
next
  case (Cons ch chs)
  from Cons.prems(1) obtain st1 where s1: "process_chapter md5 jieba force ch st = Inr st1"
    and rest: "loop_from md5 jieba force chs st1 = Inr st'"
    by (auto split: sum.splits)
  have "dict_get (ls_caches st1) cid = dict_get (ls_caches st) cid"
    using process_chapter_frame [OF s1] Cons.prems(2) by auto
  moreover have "dict_get (ls_caches st') cid = dict_get (ls_caches st1) cid"
    using Cons.IH [OF rest] Cons.prems(2) by auto
  ultimately show ?case by simp
qed


lemma served_by_cong:
  "dict_get caches' (ch_id ch) = dict_get caches (ch_id ch) \<Longrightarrow>
   served_by md5 caches ch a \<Longrightarrow> served_by md5 caches' ch a"
  unfolding served_by_def by auto

text \<open>
  After a loop that returns, every chapter with content has a valid row, and the
  analyses appended by the loop are the ones those rows give.
\<close>

lemma loop_leaves_valid_rows:
  assumes "loop_from md5 jieba force chs st = Inr st'" and "distinct (map ch_id chs)"
  shows "\<exists>as. ls_analyses st' = ls_analyses st @ as
           \<and> list_all2 (served_by md5 (ls_caches st')) (filter (\<lambda>ch. ch_content ch \<noteq> []) chs) as
           \<and> ls_cached_count st' + ls_refreshed_count st'
               = ls_cached_count st + ls_refreshed_count st + length as"
  using assms
proof (induction chs arbitrary: st)
  case Nil
  then show ?case by simp
next
  case (Cons ch chs)
  from Cons.prems(1) obtain st1 where s1: "process_chapter md5 jieba force ch st = Inr st1"
    and rest: "loop_from md5 jieba force chs st1 = Inr st'"
    by (auto split: sum.splits)
  have d: "distinct (map ch_id chs)" and nin: "ch_id ch \<notin> ch_id ` set chs"
    using Cons.prems(2) by auto
  from Cons.IH [OF rest d] obtain as where
    as: "ls_analyses st' = ls_analyses st1 @ as"
    and srv: "list_all2 (served_by md5 (ls_caches st')) (filter (\<lambda>ch. ch_content ch \<noteq> []) chs) as"
    and cnt: "ls_cached_count st' + ls_refreshed_count st'
               = ls_cached_count st1 + ls_refreshed_count st1 + length as"
    by blast
  show ?case
  proof (cases "ch_content ch = []")
    case True
    then have "st1 = st" using s1 by (simp add: process_chapter_empty)
    then show ?thesis using as srv cnt True by auto
  next
    case False
    from process_chapter_result [OF s1 False] obtain a c h where
      a: "ls_analyses st1 = ls_analyses st @ [a]"
      and h: "compute_content_hash md5 (ch_content ch) = Inr h"
      and c: "dict_get (ls_caches st1) (ch_id ch) = Some c"
      and v: "cache_valid (Some c) h" and e: "cached_analysis ch c = a"
      and cnt1: "ls_cached_count st1 + ls_refreshed_count st1
               = ls_cached_count st + ls_refreshed_count st + 1"
      by blast
    have "dict_get (ls_caches st') (ch_id ch) = dict_get (ls_caches st1) (ch_id ch)"
      by (rule loop_frame [OF rest nin])
    then have "served_by md5 (ls_caches st') ch a"
      unfolding served_by_def using h c v e by auto
    then have "list_all2 (served_by md5 (ls_caches st'))
        (filter (\<lambda>ch. ch_content ch \<noteq> []) (ch # chs)) (a # as)"
      using srv False by simp
    moreover have "ls_analyses st' = ls_analyses st @ (a # as)" using as a by simp
    moreover have "ls_cached_count st' + ls_refreshed_count st'
               = ls_cached_count st + ls_refreshed_count st + length (a # as)"
      using cnt cnt1 by simp
    ultimately show ?thesis by blast
  qed
qed

text \<open>A loop without forced refresh over chapters whose rows are all valid reuses them.\<close>

lemma loop_reuses_valid_rows:
  assumes "list_all2 (served_by md5 (ls_caches st)) (filter (\<lambda>ch. ch_content ch \<noteq> []) chs) as"
  shows "loop_from md5 jieba False chs st
           = Inr (st\<lparr>ls_analyses := ls_analyses st @ as,
                     ls_cached_count := ls_cached_count st + length as\<rparr>)"
  using assms
proof (induction chs arbitrary: st as)
  case Nil
  then show ?case by simp
next
  case (Cons ch chs)
  show ?case
  proof (cases "ch_content ch = []")
    case True
    then show ?thesis using Cons by (simp add: process_chapter_empty)
  next
    case False
    from Cons.prems False obtain a as' where as: "as = a # as'"
      and sa: "served_by md5 (ls_caches st) ch a"
      and rest: "list_all2 (served_by md5 (ls_caches st)) (filter (\<lambda>ch. ch_content ch \<noteq> []) chs) as'"
      by (auto simp: list_all2_Cons1)
    from sa obtain c h where h: "compute_content_hash md5 (ch_content ch) = Inr h"
      and c: "dict_get (ls_caches st) (ch_id ch) = Some c" and v: "cache_valid (Some c) h"
      and e: "cached_analysis ch c = a"
      unfolding served_by_def by blast
    have v': "cache_valid (dict_get (ls_caches st) (ch_id ch)) h" using v c by simp
    let ?st1 = "st\<lparr>ls_analyses := ls_analyses st @ [a],
                   ls_cached_count := ls_cached_count st + 1\<rparr>"
    have s1: "process_chapter md5 jieba False ch st = Inr ?st1"
      using process_chapter_reuse [OF False h _ v', of False jieba] c e by simp
    have "list_all2 (served_by md5 (ls_caches ?st1)) (filter (\<lambda>ch. ch_content ch \<noteq> []) chs) as'"
      using rest by simp
    from Cons.IH [OF this] show ?thesis using s1 as by simp
  qed
qed




lemma fold_err_fails:
  assumes "x \<in> set xs" and "\<And>s. \<exists>e. f x s = Inl e"
  shows "\<exists>e. fold_err f xs s = Inl e"
  using assms(1)
proof (induction xs arbitrary: s)
  case Nil
  then show ?case by simp
next
  case (Cons y ys)
  show ?case
  proof (cases "f y s")
    case (Inl e)
    then show ?thesis by simp
  next
    case (Inr s1)
    then have "x \<noteq> y" using assms(2) [of s] by auto
    then have "x \<in> set ys" using Cons.prems by simp
    from Cons.IH [OF this, of s1] show ?thesis using Inr by simp
  qed
qed

lemma loop_error:
  "loop_from md5 jieba force chs st = Inl e \<Longrightarrow> e = UnicodeEncodeError"
proof (induction chs arbitrary: st)
  case Nil
  then show ?case by simp
next
  case (Cons ch chs)
  show ?case
  proof (cases "process_chapter md5 jieba force ch st")
    case (Inl e')
    then have "e' = e" using Cons.prems by simp
    then show ?thesis using process_chapter_error [OF Inl] by simp
  next
    case (Inr st1)
    then have "loop_from md5 jieba force chs st1 = Inl e" using Cons.prems by simp
    then show ?thesis by (rule Cons.IH)
  qed
qed







lemma loop_counts:
  "loop_from md5 jieba force chs st = Inr st' \<Longrightarrow>
   ls_cached_count st' + ls_refreshed_count st'
     = ls_cached_count st + ls_refreshed_count st + length (content_chapters chs)"
proof (induction chs arbitrary: st)
  case Nil
  then show ?case by (simp add: content_chapters_def)
next
  case (Cons ch chs)
  from Cons.prems obtain st1 where s1: "process_chapter md5 jieba force ch st = Inr st1"
    and rest: "loop_from md5 jieba force chs st1 = Inr st'"
    by (auto split: sum.splits)
  show ?case
  proof (cases "ch_content ch = []")
    case True
    then have "st1 = st" using s1 by (simp add: process_chapter_empty)
    then show ?thesis using Cons.IH [OF rest] True by (simp add: content_chapters_def)
  next
    case False
    from process_chapter_result [OF s1 False]
    have "ls_cached_count st1 + ls_refreshed_count st1
        = ls_cached_count st + ls_refreshed_count st + 1" by blast
    then show ?thesis using Cons.IH [OF rest] False by (simp add: content_chapters_def)
  qed
qed

subsection \<open>A run\<close>

text \<open>The ways a run returns.\<close>

lemma run_loop_alt:
  "run_loop md5 jieba force chs caches = loop_from md5 jieba force chs (initial_state caches)"
  by (simp add: run_loop_def initial_state_def)

lemma run_insufficient:
  "length chs < n \<Longrightarrow>
   analyze_project_patterns_incremental md5 jieba n force chs db
     = Inr (InsufficientData (insufficient_message n) (length chs), db)"
  by (simp add: analyze_project_patterns_incremental_def insufficient_message_def)

lemma run_failed_loop:
  "\<not> length chs < n \<Longrightarrow> run_loop md5 jieba force chs (db_caches db) = Inl e \<Longrightarrow>
   analyze_project_patterns_incremental md5 jieba n force chs db = Inl e"
  by (simp add: analyze_project_patterns_incremental_def)

lemma run_no_content:
  "\<not> length chs < n \<Longrightarrow> run_loop md5 jieba force chs (db_caches db) = Inr st \<Longrightarrow>
   ls_analyses st = [] \<Longrightarrow>
   analyze_project_patterns_incremental md5 jieba n force chs db
     = Inr (NoContent [31456, 33410, 20869, 23481, 20026, 31354], db)"
  by (simp add: analyze_project_patterns_incremental_def)

lemma run_failed_aggregate:
  "\<not> length chs < n \<Longrightarrow> run_loop md5 jieba force chs (db_caches db) = Inr st \<Longrightarrow>
   ls_analyses st \<noteq> [] \<Longrightarrow> aggregate_analyses (ls_analyses st) (length chs) = Inl e \<Longrightarrow>
   analyze_project_patterns_incremental md5 jieba n force chs db = Inl e"
  by (simp add: analyze_project_patterns_incremental_def)

lemma run_success:
  "\<not> length chs < n \<Longrightarrow> run_loop md5 jieba force chs (db_caches db) = Inr st \<Longrightarrow>
   ls_analyses st \<noteq> [] \<Longrightarrow> aggregate_analyses (ls_analyses st) (length chs) = Inr body \<Longrightarrow>
   analyze_project_patterns_incremental md5 jieba n force chs db
     = Inr (Success (success_result body st),
            \<lparr>db_caches = ls_caches st, db_analysis = Some (body, asc ''2.0'')\<rparr>)"
  by (simp add: analyze_project_patterns_incremental_def success_result_def)

lemma run_cases:
  assumes "analyze_project_patterns_incremental md5 jieba n force chs db = Inr (res, db')"
  obtains
    (insufficient) "length chs < n"
      "res = InsufficientData (insufficient_message n) (length chs)" "db' = db"
  | (no_content) st where "\<not> length chs < n"
      "run_loop md5 jieba force chs (db_caches db) = Inr st" "ls_analyses st = []"
      "res = NoContent [31456, 33410, 20869, 23481, 20026, 31354]" "db' = db"
  | (success) st body where "\<not> length chs < n"
      "run_loop md5 jieba force chs (db_caches db) = Inr st" "ls_analyses st \<noteq> []"
      "aggregate_analyses (ls_analyses st) (length chs) = Inr body"
      "res = Success (success_result body st)"
      "db' = \<lparr>db_caches = ls_caches st, db_analysis = Some (body, asc ''2.0'')\<rparr>"
proof (cases "length chs < n")
  case True
  have "res = InsufficientData (insufficient_message n) (length chs)" "db' = db"
    using assms unfolding run_insufficient [OF True] by simp_all
  then show ?thesis using True by (rule insufficient [rotated])
next
  case False
  show ?thesis
  proof (cases "run_loop md5 jieba force chs (db_caches db)")
    case (Inl e)
    then show ?thesis using assms unfolding run_failed_loop [OF False Inl] by simp
  next
    case (Inr st)
    show ?thesis
    proof (cases "ls_analyses st = []")
      case True
      have "res = NoContent [31456, 33410, 20869, 23481, 20026, 31354]" "db' = db"
        using assms unfolding run_no_content [OF False Inr True] by simp_all
      then show ?thesis by (rule no_content [OF False Inr True])
    next
      case ne: False
      show ?thesis
      proof (cases "aggregate_analyses (ls_analyses st) (length chs)")
        case (Inl e)
        then show ?thesis using assms unfolding run_failed_aggregate [OF False Inr ne Inl] by simp
      next
        case body: (Inr body)
        have "res = Success (success_result body st)"
          "db' = \<lparr>db_caches = ls_caches st, db_analysis = Some (body, asc ''2.0'')\<rparr>"
          using assms unfolding run_success [OF False Inr ne body] by simp_all
        then show ?thesis by (rule success [OF False Inr ne body])
      qed
    qed
  qed
qed



lemma edit_chapter_ids: "map ch_id (edit_chapter chs i new_content) = map ch_id chs"
proof (rule nth_equalityI)
  show "length (map ch_id (edit_chapter chs i new_content)) = length (map ch_id chs)"
    by (simp add: edit_chapter_def)
next
  fix k assume "k < length (map ch_id (edit_chapter chs i new_content))"
  then have k: "k < length chs" by (simp add: edit_chapter_def)
  show "map ch_id (edit_chapter chs i new_content) ! k = map ch_id chs ! k"
  proof (cases "k = i")
    case True
    then show ?thesis using k by (simp add: edit_chapter_def)
  next
    case False
    then show ?thesis using k by (simp add: edit_chapter_def)
  qed
qed





lemma aggregate_chapter_count:
  "aggregate_analyses cas k = Inr body \<Longrightarrow> ar_chapters_analyzed body = k"
  by (auto simp: aggregate_analyses_def Let_def split: option.splits sum.splits)

lemma compute_hash_fails:
  "encode_utf8 content = Inl e \<Longrightarrow> compute_content_hash md5 content = Inl e"
  by (simp add: compute_content_hash_def)

subsection \<open>An example project\<close>

text \<open>
  A project of three chapters, the second one without content, and an empty database.
  The digest of the example is the identity on the bytes. The texts are
  \<^verbatim>\<open>"\u4ed6\u8d70\u8fdb\u4e86\u623f\u95f4\u3002\u5929\u6c14\u5f88\u597d\u5462\uff01\u5979\u52c3\u7136\u5927\u6012\uff0c\u6012\u9053\uff1a\u4f60\u6211\u4e4b\u95f4\u6ca1\u6709\u5173\u7cfb\u3002\u4ed6\u8d70\u8fdb\u4e86\u623f\u95f4\u3002"\<close> and
  \<^verbatim>\<open>"\u6e05\u6668\u7684\u9633\u5149\u5f88\u597d\u3002\u4ed6\u8d70\u8fdb\u4e86\u623f\u95f4\u3002\u5929\u6c14\u5f88\u597d\u554a\uff1f\u5979\u7b11\u4e86\u7b11\u3002"\<close>.
\<close>

definition example_digest :: digest where
  "example_digest bs = bs"

definition example_project :: "chapter_row list" where
  "example_project =
     [\<lparr>ch_id = asc ''c1'', ch_project_id = asc ''p1'', ch_number = 1, ch_title = asc ''one'',
       ch_content = [20182, 36208, 36827, 20102, 25151, 38388, 12290, 22825, 27668, 24456,
                     22909, 21602, 65281, 22905, 21187, 28982, 22823, 24594, 65292, 24594,
                     36947, 65306, 20320, 25105, 20043, 38388, 27809, 26377, 20851, 31995,
                     12290, 20182, 36208, 36827, 20102, 25151, 38388, 12290]\<rparr>,
      \<lparr>ch_id = asc ''c2'', ch_project_id = asc ''p1'', ch_number = 2, ch_title = asc ''two'',
       ch_content = []\<rparr>,
      \<lparr>ch_id = asc ''c3'', ch_project_id = asc ''p1'', ch_number = 3, ch_title = asc ''three'',
       ch_content = [28165, 26216, 30340, 38451, 20809, 24456, 22909, 12290, 20182, 36208,
                     36827, 20102, 25151, 38388, 12290, 22825, 27668, 24456, 22909, 21834,
                     65311, 22905, 31505, 20102, 31505, 12290]\<rparr>]"

definition example_db :: db_state where
  "example_db = \<lparr>db_caches = [], db_analysis = None\<rparr>"

definition example_first_run :: "py_error + run_result \<times> db_state" where
  "example_first_run =
     analyze_project_patterns_incremental example_digest None 2 False example_project example_db"



text \<open>
  A second chapter whose text holds a lone surrogate, \<^verbatim>\<open>"\u4ed6\u8d70\ud800\u8fdb\u4e86\u623f\u95f4\u3002"\<close>, which
  \<^verbatim>\<open>encode('utf-8')\<close> refuses.
\<close>

definition example_malformed_chapter :: chapter_row where
  "example_malformed_chapter =
     \<lparr>ch_id = asc ''c2'', ch_project_id = asc ''p1'', ch_number = 2, ch_title = asc ''two'',
      ch_content = [20182, 36208, 55296, 36827, 20102, 25151, 38388, 12290]\<rparr>"

definition example_malformed_project :: "chapter_row list" where
  "example_malformed_project = example_project[1 := example_malformed_chapter]"

text \<open>The counters of a successful run, and the database after a run.\<close>

definition run_stats :: "py_error + run_result \<times> db_state \<Rightarrow> (nat \<times> nat) option" where
  "run_stats out =
     (case out of
        Inr (Success r, db) \<Rightarrow> Some (ir_cached_chapters r, ir_refreshed_chapters r)
      | _ \<Rightarrow> None)"

definition db_after :: "py_error + run_result \<times> db_state \<Rightarrow> db_state \<Rightarrow> db_state" where
  "db_after out db = (case out of Inr (r, db') \<Rightarrow> db' | Inl e \<Rightarrow> db)"

lemma run_stats_Some:
  "run_stats out = Some (c, r) \<Longrightarrow>
   \<exists>res db. out = Inr (Success res, db) \<and> ir_cached_chapters res = c
     \<and> ir_refreshed_chapters res = r \<and> db_after out db0 = db"
  by (auto simp: run_stats_def db_after_def split: sum.splits run_result.splits prod.splits)

lemma example_distinct: "distinct (map ch_id example_project)"
  by code_simp

lemma example_length: "length example_project = 3"
  by (simp add: example_project_def)

lemma example_content_chapters: "length (content_chapters example_project) = 2"
  by (simp add: content_chapters_def example_project_def)

lemma example_first_run_stats: "run_stats example_first_run = Some (0, 2)"
  by code_simp



subsection \<open>The claims\<close>

text \<open>
  Claim C6. A run on a project whose chapters have distinct ids that returns, followed by
  a second run (without forced refresh) on the same chapters from the database the first
  one left: the second run recomputes no chapter, serves every chapter with content from
  its cache row, and leaves the database as it was, the saved analysis included. Its
  result has the same status as the first; when that is \<^verbatim>\<open>success\<close> the nine fields of the
  analysis result (score, level, chapters analysed, patterns found, top patterns, opening
  analysis, emotion diversity, n-gram analysis, suggestions) are those of the first run,
  and the two counters of \<^verbatim>\<open>incremental_stats\<close>, which the returned dictionary carries
  beside the analysis result, are the number of chapters with content and zero.
\<close>

theorem second_run_reuses_all:
  assumes "distinct (map ch_id chapters)"
    and "analyze_project_patterns_incremental md5 jieba n force chapters db = Inr (res1, db1)"
  shows "analyze_project_patterns_incremental md5 jieba n False chapters db1
           = Inr ((case res1 of
                     Success r1 \<Rightarrow>
                       Success (r1\<lparr>ir_cached_chapters := length (content_chapters chapters),
                                   ir_refreshed_chapters := 0\<rparr>)
                   | _ \<Rightarrow> res1),
                  db1)"
  using assms(2)
proof (cases rule: run_cases)
  case insufficient
  show ?thesis
    unfolding insufficient run_insufficient [OF insufficient(1)] by simp
next
  case (no_content st)
  from loop_leaves_valid_rows [OF no_content(2) [unfolded run_loop_alt] assms(1)]
  obtain as where as: "ls_analyses st = ls_analyses (initial_state (db_caches db)) @ as"
    and srv: "list_all2 (served_by md5 (ls_caches st)) (filter (\<lambda>ch. ch_content ch \<noteq> []) chapters) as"
    by blast
  have "as = []" using as no_content(3) by simp
  then have "filter (\<lambda>ch. ch_content ch \<noteq> []) chapters = []" using srv by simp
  then have "list_all2 (served_by md5 (ls_caches (initial_state (db_caches db))))
      (filter (\<lambda>ch. ch_content ch \<noteq> []) chapters) []" by simp
  from loop_reuses_valid_rows [OF this, of jieba]
  have l2: "run_loop md5 jieba False chapters (db_caches db) = Inr (initial_state (db_caches db))"
    by (simp add: run_loop_alt initial_state_def)
  have "analyze_project_patterns_incremental md5 jieba n False chapters db
     = Inr (NoContent [31456, 33410, 20869, 23481, 20026, 31354], db)"
    by (rule run_no_content [OF no_content(1) l2]) (simp add: initial_state_def)
  then show ?thesis unfolding no_content(4,5) by simp
next
  case (success st body)
  from loop_leaves_valid_rows [OF success(2) [unfolded run_loop_alt] assms(1)]
  obtain as where as: "ls_analyses st = ls_analyses (initial_state (db_caches db)) @ as"
    and srv: "list_all2 (served_by md5 (ls_caches st)) (filter (\<lambda>ch. ch_content ch \<noteq> []) chapters) as"
    by blast
  have as': "ls_analyses st = as" using as by (simp add: initial_state_def)
  have len: "length as = length (content_chapters chapters)"
    using list_all2_lengthD [OF srv] by (simp add: content_chapters_def)
  let ?st2 = "(initial_state (ls_caches st))\<lparr>ls_analyses := as, ls_cached_count := length as\<rparr>"
  have "list_all2 (served_by md5 (ls_caches (initial_state (ls_caches st))))
      (filter (\<lambda>ch. ch_content ch \<noteq> []) chapters) as"
    using srv by (simp add: initial_state_def)
  from loop_reuses_valid_rows [OF this, of jieba]
  have l2: "run_loop md5 jieba False chapters (db_caches db1) = Inr ?st2"
    using success(6) by (simp add: run_loop_alt initial_state_def)
  have a2: "ls_analyses ?st2 \<noteq> []" using success(3) as' by simp
  have b2: "aggregate_analyses (ls_analyses ?st2) (length chapters) = Inr body"
    using success(4) as' by simp
  have r2: "analyze_project_patterns_incremental md5 jieba n False chapters db1
     = Inr (Success (success_result body ?st2),
            \<lparr>db_caches = ls_caches ?st2, db_analysis = Some (body, asc ''2.0'')\<rparr>)"
    by (rule run_success [OF success(1) l2 a2 b2])
  have db: "\<lparr>db_caches = ls_caches ?st2, db_analysis = Some (body, asc ''2.0'')\<rparr> = db1"
    using success(6) by (simp add: initial_state_def)
  have res: "success_result body ?st2
      = (success_result body st)\<lparr>ir_cached_chapters := length (content_chapters chapters),
                                  ir_refreshed_chapters := 0\<rparr>"
    using len by (simp add: success_result_def initial_state_def)
  show ?thesis unfolding r2 db res success(5) by simp
qed

text \<open>
  On the example the first run recomputes both chapters with content, and the second run
  reuses both rows and returns the same analysis.
\<close>

theorem second_run_reuses_all_witness:
  "distinct (map ch_id example_project)
   \<and> (\<exists>r1 db1.
         analyze_project_patterns_incremental example_digest None 2 False example_project
           example_db = Inr (Success r1, db1)
         \<and> ir_cached_chapters r1 = 0 \<and> ir_refreshed_chapters r1 = 2
         \<and> analyze_project_patterns_incremental example_digest None 2 False example_project db1
             = Inr (Success (r1\<lparr>ir_cached_chapters := 2, ir_refreshed_chapters := 0\<rparr>), db1))"
proof -
  from run_stats_Some [OF example_first_run_stats, of example_db]
  obtain r1 db1 where f: "example_first_run = Inr (Success r1, db1)"
    and c: "ir_cached_chapters r1 = 0" and r: "ir_refreshed_chapters r1 = 2"
    by blast
  have f': "analyze_project_patterns_incremental example_digest None 2 False example_project
              example_db = Inr (Success r1, db1)"
    using f unfolding example_first_run_def .
  have s: "analyze_project_patterns_incremental example_digest None 2 False example_project db1
             = Inr (Success (r1\<lparr>ir_cached_chapters := 2, ir_refreshed_chapters := 0\<rparr>), db1)"
    using second_run_reuses_all [OF example_distinct f'] by (simp add: example_content_chapters)
  show ?thesis
    by (intro conjI exI [of _ r1] exI [of _ db1] example_distinct f' c r s)
qed

text \<open>
  Claim C7, as the code has it. The loop has no handler: when a chapter with content
  cannot be processed (its text cannot be encoded, so it has no hash), the exception ends
  the run, which returns no result; no chapter is skipped and no list of errors exists.
  A run that succeeds reports as \<^verbatim>\<open>chapters_analyzed\<close> the number of all chapters of the
  project, those without content included, and its two counters add up to the number of
  chapters with content.
\<close>

theorem malformed_chapter_aborts_run:
  "(n \<le> length chapters \<and> ch \<in> set chapters \<and> ch_content ch \<noteq> []
      \<and> encode_utf8 (ch_content ch) = Inl e
     \<longrightarrow> analyze_project_patterns_incremental md5 jieba n force chapters db
           = Inl UnicodeEncodeError)
   \<and> (\<forall>r db'. analyze_project_patterns_incremental md5 jieba n force chapters db
                 = Inr (Success r, db')
        \<longrightarrow> ar_chapters_analyzed r = length chapters
            \<and> ir_cached_chapters r + ir_refreshed_chapters r = length (content_chapters chapters))"
proof (intro conjI impI allI)
  assume a: "n \<le> length chapters \<and> ch \<in> set chapters \<and> ch_content ch \<noteq> []
      \<and> encode_utf8 (ch_content ch) = Inl e"
  then have n: "\<not> length chapters < n" and m: "ch \<in> set chapters" and c: "ch_content ch \<noteq> []"
    and f: "compute_content_hash md5 (ch_content ch) = Inl e"
    by (auto simp: compute_hash_fails)
  have p: "\<And>s. \<exists>e'. process_chapter md5 jieba force ch s = Inl e'"
    using process_chapter_fail [OF c f] by blast
  have "\<exists>e'. fold_err (process_chapter md5 jieba force) chapters
           \<lparr>ls_analyses = [], ls_cached_count = 0, ls_refreshed_count = 0,
            ls_caches = db_caches db\<rparr> = Inl e'"
    by (rule fold_err_fails [where f = "process_chapter md5 jieba force" and x = ch, OF m p])
  then obtain e' where l: "run_loop md5 jieba force chapters (db_caches db) = Inl e'"
    unfolding run_loop_def by blast
  have "e' = UnicodeEncodeError"
    using l unfolding run_loop_alt by (rule loop_error)
  then show "analyze_project_patterns_incremental md5 jieba n force chapters db
               = Inl UnicodeEncodeError"
    using run_failed_loop [OF n l] by simp
next
  fix r db'
  assume "analyze_project_patterns_incremental md5 jieba n force chapters db = Inr (Success r, db')"
  then show "ar_chapters_analyzed r = length chapters"
  proof (cases rule: run_cases)
    case (success st body)
    then show ?thesis using aggregate_chapter_count [OF success(4)]
      by (simp add: success_result_def)
  qed simp_all
next
  fix r db'
  assume "analyze_project_patterns_incremental md5 jieba n force chapters db = Inr (Success r, db')"
  then show "ir_cached_chapters r + ir_refreshed_chapters r = length (content_chapters chapters)"
  proof (cases rule: run_cases)
    case (success st body)
    from loop_counts [OF success(2) [unfolded run_loop_alt]]
    show ?thesis using success(5) by (simp add: success_result_def initial_state_def)
  qed simp_all
qed

text \<open>
  The run on the project with the malformed second chapter raises, and the successful run
  of the example counts its three chapters, the empty one included.
\<close>

theorem malformed_chapter_aborts_run_witness:
  "2 \<le> length example_malformed_project
   \<and> example_malformed_chapter \<in> set example_malformed_project
   \<and> ch_content example_malformed_chapter \<noteq> []
   \<and> encode_utf8 (ch_content example_malformed_chapter) = Inl UnicodeEncodeError
   \<and> analyze_project_patterns_incremental example_digest None 2 False
        example_malformed_project example_db = Inl UnicodeEncodeError
   \<and> (\<exists>r db'. analyze_project_patterns_incremental example_digest None 2 False example_project
                  example_db = Inr (Success r, db')
         \<and> ar_chapters_analyzed r = 3
         \<and> ir_cached_chapters r + ir_refreshed_chapters r = 2)"
proof -
  have h1: "2 \<le> length example_malformed_project"
    by (simp add: example_malformed_project_def example_project_def)
  have h2: "example_malformed_chapter \<in> set example_malformed_project"
    by (simp add: example_malformed_project_def example_project_def)
  have h3: "ch_content example_malformed_chapter \<noteq> []"
    by (simp add: example_malformed_chapter_def)
  have h4: "encode_utf8 (ch_content example_malformed_chapter) = Inl UnicodeEncodeError"
    by code_simp
  note t1 = malformed_chapter_aborts_run
    [of 2 example_malformed_project example_malformed_chapter UnicodeEncodeError
        example_digest None False example_db]
  have c1: "analyze_project_patterns_incremental example_digest None 2 False
        example_malformed_project example_db = Inl UnicodeEncodeError"
    using t1 h1 h2 h3 h4 by blast
  from run_stats_Some [OF example_first_run_stats, of example_db]
  obtain r db' where f: "example_first_run = Inr (Success r, db')" by blast
  have f': "analyze_project_patterns_incremental example_digest None 2 False example_project
              example_db = Inr (Success r, db')"
    using f unfolding example_first_run_def .
  note t2 = malformed_chapter_aborts_run
    [of 2 example_project example_malformed_chapter UnicodeEncodeError
        example_digest None False example_db]
  have "ar_chapters_analyzed r = length example_project
      \<and> ir_cached_chapters r + ir_refreshed_chapters r
          = length (content_chapters example_project)"
    using t2 f' by blast
  then have c2: "ar_chapters_analyzed r = 3"
    and c3: "ir_cached_chapters r + ir_refreshed_chapters r = 2"
    by (simp_all add: example_content_chapters example_length)
  show ?thesis
    by (intro conjI exI [of _ r] exI [of _ db'] h1 h2 h3 h4 c1 f' c2 c3)
qed

theorem malformed_chapter_counterexample:
  "analyze_project_patterns_incremental example_digest None 2 False
     example_malformed_project example_db = Inl UnicodeEncodeError"
  by code_simp



end
